theory Spec2Isabelle
  imports Main "HOL-Library.Word"
begin

unbundle bit_operations_syntax

section \<open>Bytes and dedup keys\<close>

text \<open>Go's \<^verbatim>\<open>[]byte\<close> is a list of 8-bit words; Go's \<^verbatim>\<open>string\<close> is a list of characters.\<close>

type_synonym byte = "8 word"

subsection \<open>The dedup-key pattern\<close>

text \<open>
  \<^verbatim>\<open>var DedupKeyPattern = regexp.MustCompile(`^[A-Za-z0-9_-]{27}$`)\<close>: the character
  class with its ranges written out, and the anchored repetition as a length test
  (Go's \<^verbatim>\<open>$\<close> without the multi-line flag matches at the end of the text only).
\<close>

definition alnum :: "char list" where
  "alnum = ''ABCDEFGHIJKLMNOPQRSTUVWXYZ'' @ ''abcdefghijklmnopqrstuvwxyz'' @ ''0123456789''"

definition dedupKeyClass :: "char list" where
  "dedupKeyClass = alnum @ ''_-''"

definition DedupKeyPattern_match :: "string \<Rightarrow> bool" where
  "DedupKeyPattern_match s = (length s = 27 \<and> list_all (\<lambda>c. c \<in> set dedupKeyClass) s)"

subsection \<open>URL-safe base64 without padding\<close>

text \<open>
  Modelled from the spec: \<^verbatim>\<open>core.SHA1ToDedupeKey\<close> and \<^verbatim>\<open>core.DedupeKeyToSHA1\<close> are called
  by the resolver and the upload worker, but their bodies are not among the source files.
  The spec gives them as "URL-safe base64 without padding of 20 raw bytes, 27 characters"
  and "inverse; fails if decoded length is not 20". The encoding below is RFC 4648's
  base64url: three bytes become four 6-bit values, a rest of two bytes three values, a
  rest of one byte two values; no padding character is written.
\<close>

definition encodeURL :: string where
  "encodeURL = alnum @ ''-_''"

fun sextets :: "byte list \<Rightarrow> nat list" where
  "sextets (a # b # c # rest) =
     [unat a div 4, (unat a mod 4) * 16 + unat b div 16,
      (unat b mod 16) * 4 + unat c div 64, unat c mod 64] @ sextets rest"
| "sextets [a, b] = [unat a div 4, (unat a mod 4) * 16 + unat b div 16, (unat b mod 16) * 4]"
| "sextets [a] = [unat a div 4, (unat a mod 4) * 16]"
| "sextets [] = []"

definition b64encode :: "byte list \<Rightarrow> string" where
  "b64encode bs = map (\<lambda>i. encodeURL ! i) (sextets bs)"

fun index_of :: "'a \<Rightarrow> 'a list \<Rightarrow> nat option" where
  "index_of c [] = None"
| "index_of c (x # xs) = (if c = x then Some 0 else map_option Suc (index_of c xs))"

fun mapM :: "('a \<Rightarrow> 'b option) \<Rightarrow> 'a list \<Rightarrow> 'b list option" where
  "mapM f [] = Some []"
| "mapM f (x # xs) =
     (case f x of None \<Rightarrow> None
      | Some y \<Rightarrow> (case mapM f xs of None \<Rightarrow> None | Some ys \<Rightarrow> Some (y # ys)))"

text \<open>
  Decoding: four 6-bit values give three bytes, a rest of three values two bytes, a rest
  of two values one byte; a rest of a single value is malformed. Bits left over in the
  last value are dropped.
\<close>

fun unsextets :: "nat list \<Rightarrow> byte list option" where
  "unsextets (p # q # r # s # rest) =
     (case unsextets rest of None \<Rightarrow> None
      | Some bs \<Rightarrow> Some ([of_nat (p * 4 + q div 16), of_nat ((q mod 16) * 16 + r div 4),
                          of_nat ((r mod 4) * 64 + s)] @ bs))"
| "unsextets [p, q, r] = Some [of_nat (p * 4 + q div 16), of_nat ((q mod 16) * 16 + r div 4)]"
| "unsextets [p, q] = Some [of_nat (p * 4 + q div 16)]"
| "unsextets [p] = None"
| "unsextets [] = Some []"

definition b64decode :: "string \<Rightarrow> byte list option" where
  "b64decode s =
     (case mapM (\<lambda>c. index_of c encodeURL) s of None \<Rightarrow> None | Some v \<Rightarrow> unsextets v)"

datatype dedup_error = IllegalBase64 | InvalidSHA1Length nat

text \<open>Modelled from the spec: the two conversions between a SHA-1 digest and a dedup key.\<close>

definition SHA1ToDedupeKey :: "byte list \<Rightarrow> string" where
  "SHA1ToDedupeKey h = b64encode h"

definition DedupeKeyToSHA1 :: "string \<Rightarrow> dedup_error + byte list" where
  "DedupeKeyToSHA1 s =
     (case b64decode s of
        None \<Rightarrow> Inl IllegalBase64
      | Some bs \<Rightarrow> if length bs \<noteq> 20 then Inl (InvalidSHA1Length (length bs)) else Inr bs)"

subsection \<open>Round trip\<close>

lemma byte_lt: "unat (a::byte) < 256"
  using unsigned_less [of a] by simp

lemma hi_of_first:
  "of_nat (unat a div 4 * 4 + (unat a mod 4 * 16 + unat (b::byte) div 16) div 16) = (a::byte)"
proof -
  have "unat b div 16 < 16" using byte_lt [of b] by simp
  then have "(unat a mod 4 * 16 + unat b div 16) div 16 = unat a mod 4" by simp
  then show ?thesis by simp
qed

lemma mid_of_three:
  "of_nat ((unat (a::byte) mod 4 * 16 + unat b div 16) mod 16 * 16
       + (unat b mod 16 * 4 + unat (c::byte) div 64) div 4) = (b::byte)"
proof -
  have "unat c div 64 < 4" using byte_lt [of c] by simp
  then have 1: "(unat b mod 16 * 4 + unat c div 64) div 4 = unat b mod 16" by simp
  have "unat b div 16 < 16" using byte_lt [of b] by simp
  then have 2: "(unat a mod 4 * 16 + unat b div 16) mod 16 = unat b div 16" by simp
  show ?thesis unfolding 1 2 by simp
qed

lemma last_of_three:
  "of_nat ((unat (b::byte) mod 16 * 4 + unat c div 64) mod 4 * 64 + unat c mod 64) = (c::byte)"
proof -
  have "unat c div 64 < 4" using byte_lt [of c] by simp
  then have 1: "(unat b mod 16 * 4 + unat c div 64) mod 4 = unat c div 64" by simp
  show ?thesis unfolding 1 by simp
qed

lemma mid_of_two:
  "of_nat ((unat (a::byte) mod 4 * 16 + unat b div 16) mod 16 * 16 + (unat b mod 16 * 4) div 4)
     = (b::byte)"
proof -
  have "unat b div 16 < 16" using byte_lt [of b] by simp
  then have 2: "(unat a mod 4 * 16 + unat b div 16) mod 16 = unat b div 16" by simp
  show ?thesis unfolding 2 by simp
qed

lemma hi_of_one: "of_nat (unat a div 4 * 4 + (unat a mod 4 * 16) div 16) = (a::byte)"
  by simp

lemma unsextets_sextets: "unsextets (sextets bs) = Some bs"
  by (induction bs rule: sextets.induct)
    (simp_all only: sextets.simps unsextets.simps append_Cons append_Nil option.case
       hi_of_first mid_of_three last_of_three mid_of_two hi_of_one)

lemma sextets_lt: "\<forall>v \<in> set (sextets bs). v < 64"
proof (induction bs rule: sextets.induct)
  case (1 a b c rest)
  have "unat a < 256" "unat b < 256" "unat c < 256" by (rule byte_lt)+
  then show ?case using 1 by (auto simp: less_mult_imp_div_less)
next
  case (2 a b)
  have "unat a < 256" "unat b < 256" by (rule byte_lt)+
  then show ?case by (auto simp: less_mult_imp_div_less)
next
  case (3 a)
  have "unat a < 256" by (rule byte_lt)
  then show ?case by (auto simp: less_mult_imp_div_less)
qed simp

lemma length_sextets: "length (sextets bs) = (4 * length bs + 2) div 3"
  by (induction bs rule: sextets.induct) simp_all

lemma distinct_encodeURL: "distinct encodeURL"
  by (simp add: encodeURL_def alnum_def)

lemma length_encodeURL: "length encodeURL = 64"
  by (simp add: encodeURL_def alnum_def)

lemma class_is_alphabet: "set dedupKeyClass = set encodeURL"
  by (simp add: dedupKeyClass_def encodeURL_def insert_commute)

lemma index_of_nth: "distinct xs \<Longrightarrow> i < length xs \<Longrightarrow> index_of (xs ! i) xs = Some i"
proof (induction xs arbitrary: i)
  case Nil
  then show ?case by simp
next
  case (Cons x xs)
  show ?case
  proof (cases i)
    case 0
    then show ?thesis by simp
  next
    case (Suc j)
    with Cons.prems have "j < length xs" "xs ! j \<noteq> x" "distinct xs" by auto
    with Cons.IH [of j] Suc show ?thesis by auto
  qed
qed

lemma index_of_mem: "c \<in> set xs \<Longrightarrow> \<exists>i. index_of c xs = Some i"
  by (induction xs) auto

lemma mapM_index_of_nth:
  "\<forall>v \<in> set vs. v < 64 \<Longrightarrow>
     mapM (\<lambda>c. index_of c encodeURL) (map (\<lambda>i. encodeURL ! i) vs) = Some vs"
  by (induction vs) (simp_all add: index_of_nth distinct_encodeURL length_encodeURL)

lemma mapM_length: "mapM f xs = Some ys \<Longrightarrow> length ys = length xs"
  by (induction xs arbitrary: ys) (auto split: option.splits)

lemma mapM_total: "\<forall>x \<in> set xs. \<exists>y. f x = Some y \<Longrightarrow> \<exists>ys. mapM f xs = Some ys"
  by (induction xs) auto

lemma b64_roundtrip: "b64decode (b64encode bs) = Some bs"
  by (simp add: b64decode_def b64encode_def mapM_index_of_nth sextets_lt unsextets_sextets)

lemma b64encode_class: "list_all (\<lambda>c. c \<in> set dedupKeyClass) (b64encode bs)"
proof -
  have "encodeURL ! v \<in> set encodeURL" if "v \<in> set (sextets bs)" for v
    using that sextets_lt [of bs] by (simp add: length_encodeURL)
  then show ?thesis
    by (simp add: b64encode_def list_all_iff class_is_alphabet)
qed

lemma unsextets_length: "unsextets vs = Some bs \<Longrightarrow> length bs = (3 * length vs) div 4"
  by (induction vs arbitrary: bs rule: unsextets.induct) (auto split: option.splits)

lemma unsextets_None: "unsextets vs = None \<longleftrightarrow> length vs mod 4 = 1"
  by (induction vs rule: unsextets.induct) (auto split: option.splits)

text \<open>Every string the pattern accepts decodes, and to exactly 20 bytes.\<close>

lemma pattern_decodes:
  assumes "DedupKeyPattern_match s"
  shows "\<exists>h. DedupeKeyToSHA1 s = Inr h \<and> length h = 20"
proof -
  from assms have len: "length s = 27" and cls: "\<forall>c \<in> set s. c \<in> set encodeURL"
    by (simp_all add: DedupKeyPattern_match_def list_all_iff class_is_alphabet)
  from cls have "\<forall>c \<in> set s. \<exists>i. index_of c encodeURL = Some i"
    by (simp add: index_of_mem)
  then obtain vs where vs: "mapM (\<lambda>c. index_of c encodeURL) s = Some vs"
    using mapM_total [of s "\<lambda>c. index_of c encodeURL"] by blast
  then have lvs: "length vs = 27" using mapM_length len by fastforce
  then have "unsextets vs \<noteq> None" by (simp add: unsextets_None)
  then obtain bs where bs: "unsextets vs = Some bs" by blast
  then have "length bs = 20" using unsextets_length lvs by fastforce
  with vs bs show ?thesis by (simp add: DedupeKeyToSHA1_def b64decode_def)
qed

text \<open>
  C6. For every 20-byte digest \<open>h\<close>, decoding the dedup key of \<open>h\<close> gives \<open>h\<close> back; the
  dedup key has 27 characters and matches the dedup-key pattern; and the decoder succeeds
  exactly on the strings that are base64url of 20 bytes, so it fails on every input whose
  decoded length is not 20.
\<close>

theorem dedup_key_roundtrip:
  "(length h = 20 \<longrightarrow>
      DedupeKeyToSHA1 (SHA1ToDedupeKey h) = Inr h
      \<and> length (SHA1ToDedupeKey h) = 27
      \<and> DedupKeyPattern_match (SHA1ToDedupeKey h))
   \<and> (\<forall>bs. b64decode s = Some bs \<and> length bs \<noteq> 20 \<longrightarrow>
         DedupeKeyToSHA1 s = Inl (InvalidSHA1Length (length bs)))
   \<and> (DedupeKeyToSHA1 s = Inr d \<longleftrightarrow> b64decode s = Some d \<and> length d = 20)"
proof (intro conjI impI allI)
  assume h: "length h = 20"
  show "DedupeKeyToSHA1 (SHA1ToDedupeKey h) = Inr h"
    using h by (simp add: DedupeKeyToSHA1_def SHA1ToDedupeKey_def b64_roundtrip)
  show len: "length (SHA1ToDedupeKey h) = 27"
    using h by (simp add: SHA1ToDedupeKey_def b64encode_def length_sextets)
  show "DedupKeyPattern_match (SHA1ToDedupeKey h)"
    using len b64encode_class [of h]
    by (simp add: DedupKeyPattern_match_def SHA1ToDedupeKey_def)
next
  fix bs assume "b64decode s = Some bs \<and> length bs \<noteq> 20"
  then show "DedupeKeyToSHA1 s = Inl (InvalidSHA1Length (length bs))"
    by (simp add: DedupeKeyToSHA1_def)
next
  show "DedupeKeyToSHA1 s = Inr d \<longleftrightarrow> b64decode s = Some d \<and> length d = 20"
    by (auto simp: DedupeKeyToSHA1_def split: option.splits)
qed

theorem dedup_key_roundtrip_witness:
  "length [1, 2, 3, 4, 5, 6, 7, 8, 9, 10, 11, 12, 13, 14, 15, 16, 17, 18, 19, 255 :: byte] = 20
   \<and> DedupeKeyToSHA1
        (SHA1ToDedupeKey [1, 2, 3, 4, 5, 6, 7, 8, 9, 10, 11, 12, 13, 14, 15, 16, 17, 18, 19, 255])
       = Inr [1, 2, 3, 4, 5, 6, 7, 8, 9, 10, 11, 12, 13, 14, 15, 16, 17, 18, 19, 255]
   \<and> DedupKeyPattern_match
        (SHA1ToDedupeKey [1, 2, 3, 4, 5, 6, 7, 8, 9, 10, 11, 12, 13, 14, 15, 16, 17, 18, 19, 255])
   \<and> b64decode ''AQ'' = Some [1]
   \<and> DedupeKeyToSHA1 ''AQ'' = Inl (InvalidSHA1Length 1)"
proof -
  let ?h = "[1, 2, 3, 4, 5, 6, 7, 8, 9, 10, 11, 12, 13, 14, 15, 16, 17, 18, 19, 255 :: byte]"
  have len: "length ?h = 20" by simp
  have dec: "b64decode ''AQ'' = Some [1]"
    by (simp add: b64decode_def encodeURL_def alnum_def)
  from dedup_key_roundtrip [of ?h "''AQ''"] len dec show ?thesis
    by simp
qed

section \<open>Identifier resolver\<close>

text \<open>
  \<^verbatim>\<open>ResolveItemKey\<close> and \<^verbatim>\<open>ResolveMediaKey\<close> read the file system (\<^verbatim>\<open>os.Stat\<close>), hash a
  file (\<^verbatim>\<open>CalculateSHA1\<close>) and ask the server (\<^verbatim>\<open>FindMediaKeyByHash\<close>). The world they run
  in is a record of what each of these answers; a failing call answers \<open>None\<close>. Every call
  made is written to a trace, in order, so that "no hashing and no lookup" is a statement
  about the trace.
\<close>

record world =
  statOk :: "string \<Rightarrow> bool"
  CalculateSHA1 :: "string \<Rightarrow> byte list option"
  FindMediaKeyByHash :: "byte list \<Rightarrow> string option"

datatype effect = Stat string | HashFile string | FindByHash "byte list"

datatype resolve_error =
    KeyRequired          \<comment> \<open>"item key or file path is required"\<close>
  | DecodeDedupFailed    \<comment> \<open>"failed to decode dedup key"\<close>
  | SHA1Failed           \<comment> \<open>"failed to calculate SHA1"\<close>
  | FindFailed           \<comment> \<open>"failed to find media in library"\<close>
  | MediaNotFound        \<comment> \<open>"media not found in Google Photos library"\<close>
  | FileNotFound         \<comment> \<open>"file not found in Google Photos library"\<close>

definition ResolveItemKey :: "world \<Rightarrow> string \<Rightarrow> (resolve_error + string) \<times> effect list" where
  "ResolveItemKey w input =
     (if input = '''' then (Inl KeyRequired, [])
      else if DedupKeyPattern_match input then (Inr input, [])
      else if statOk w input then
        (case CalculateSHA1 w input of
           None \<Rightarrow> (Inl SHA1Failed, [Stat input, HashFile input])
         | Some hash \<Rightarrow> (Inr (SHA1ToDedupeKey hash), [Stat input, HashFile input]))
      else (Inr input, [Stat input]))"

definition ResolveMediaKey :: "world \<Rightarrow> string \<Rightarrow> (resolve_error + string) \<times> effect list" where
  "ResolveMediaKey w input =
     (if input = '''' then (Inl KeyRequired, [])
      else if DedupKeyPattern_match input then
        (case DedupeKeyToSHA1 input of
           Inl e \<Rightarrow> (Inl DecodeDedupFailed, [])
         | Inr hash \<Rightarrow>
             (case FindMediaKeyByHash w hash of
                None \<Rightarrow> (Inl FindFailed, [FindByHash hash])
              | Some mediaKey \<Rightarrow>
                  if mediaKey = '''' then (Inl MediaNotFound, [FindByHash hash])
                  else (Inr mediaKey, [FindByHash hash])))
      else if statOk w input then
        (case CalculateSHA1 w input of
           None \<Rightarrow> (Inl SHA1Failed, [Stat input, HashFile input])
         | Some hash \<Rightarrow>
             (case FindMediaKeyByHash w hash of
                None \<Rightarrow> (Inl FindFailed, [Stat input, HashFile input, FindByHash hash])
              | Some mediaKey \<Rightarrow>
                  if mediaKey = '''' then
                    (Inl FileNotFound, [Stat input, HashFile input, FindByHash hash])
                  else (Inr mediaKey, [Stat input, HashFile input, FindByHash hash])))
      else (Inr input, [Stat input]))"

text \<open>
  The reply of the hash lookup as both resolver branches read it: a failed call, an empty
  reply (the given not-found error), or the media key.
\<close>

definition lookupReply :: "world \<Rightarrow> resolve_error \<Rightarrow> byte list \<Rightarrow> resolve_error + string" where
  "lookupReply w notFound hash =
     (case FindMediaKeyByHash w hash of
        None \<Rightarrow> Inl FindFailed
      | Some mediaKey \<Rightarrow> if mediaKey = '''' then Inl notFound else Inr mediaKey)"

text \<open>A world for examples: no file exists, every digest is unknown to the server.\<close>

definition emptyWorld :: world where
  "emptyWorld =
     \<lparr>statOk = (\<lambda>p. False), CalculateSHA1 = (\<lambda>p. None), FindMediaKeyByHash = (\<lambda>h. Some '''')\<rparr>"

text \<open>
  A world with one file \<^verbatim>\<open>a.jpg\<close> whose digest is twenty zero bytes, stored on the server
  under the media key \<^verbatim>\<open>AF1QipXYZ\<close>.
\<close>

definition zeroDigest :: "byte list" where
  "zeroDigest = [0, 0, 0, 0, 0, 0, 0, 0, 0, 0, 0, 0, 0, 0, 0, 0, 0, 0, 0, 0]"

definition oneFileWorld :: world where
  "oneFileWorld =
     \<lparr>statOk = (\<lambda>p. p = ''a.jpg''),
      CalculateSHA1 = (\<lambda>p. if p = ''a.jpg'' then Some zeroDigest else None),
      FindMediaKeyByHash = (\<lambda>h. if h = zeroDigest then Some ''AF1QipXYZ'' else Some '''')\<rparr>"

lemma pattern_nonempty: "DedupKeyPattern_match s \<Longrightarrow> s \<noteq> ''''"
  by (auto simp: DedupKeyPattern_match_def)

text \<open>
  C10. On the empty string both resolvers return the error "item key or file path is
  required"; the trace is empty, so no file is examined or hashed and no lookup is sent;
  and the result is not the empty string as a key.
\<close>

theorem resolve_empty_input:
  "ResolveItemKey w '''' = (Inl KeyRequired, [])
   \<and> ResolveMediaKey w '''' = (Inl KeyRequired, [])
   \<and> fst (ResolveItemKey w '''') \<noteq> Inr ''''
   \<and> fst (ResolveMediaKey w '''') \<noteq> Inr ''''"
  by (simp add: ResolveItemKey_def ResolveMediaKey_def)

text \<open>
  C7 as the claim states it fails at the empty string: it matches no dedup key and names no
  file, yet it is not returned unchanged.
\<close>

theorem resolve_media_key_empty_counterexample:
  "\<not> DedupKeyPattern_match '''' \<and> \<not> statOk emptyWorld ''''
   \<and> fst (ResolveMediaKey emptyWorld '''') \<noteq> Inr ''''"
  by (simp add: ResolveMediaKey_def DedupKeyPattern_match_def emptyWorld_def)

text \<open>
  C7, amended. The empty string is refused. A non-empty input that matches the dedup-key
  pattern always decodes to a 20-byte digest, which is looked up: an empty reply is the
  error "media not found", a failed call an error, anything else the media key. Any other
  input that names an existing file is hashed (a failure of the hashing is an error) and
  the digest is looked up the same way, an empty reply being the error "file not found".
  Every other non-empty input is returned unchanged, after the one look at the file system.
\<close>

theorem resolve_media_key_cases:
  "(input = '''' \<longrightarrow> ResolveMediaKey w input = (Inl KeyRequired, []))
   \<and> (DedupKeyPattern_match input \<longrightarrow>
        (\<exists>hash. DedupeKeyToSHA1 input = Inr hash \<and> length hash = 20
           \<and> ResolveMediaKey w input = (lookupReply w MediaNotFound hash, [FindByHash hash])))
   \<and> (input \<noteq> '''' \<and> \<not> DedupKeyPattern_match input \<and> statOk w input \<longrightarrow>
        (case CalculateSHA1 w input of
           None \<Rightarrow> ResolveMediaKey w input = (Inl SHA1Failed, [Stat input, HashFile input])
         | Some hash \<Rightarrow>
             ResolveMediaKey w input =
               (lookupReply w FileNotFound hash, [Stat input, HashFile input, FindByHash hash])))
   \<and> (input \<noteq> '''' \<and> \<not> DedupKeyPattern_match input \<and> \<not> statOk w input \<longrightarrow>
        ResolveMediaKey w input = (Inr input, [Stat input]))
   \<and> (\<forall>hash. FindMediaKeyByHash w hash = Some '''' \<longrightarrow>
        lookupReply w MediaNotFound hash = Inl MediaNotFound
        \<and> lookupReply w FileNotFound hash = Inl FileNotFound)"
proof (intro conjI)
  show "input = '''' \<longrightarrow> ResolveMediaKey w input = (Inl KeyRequired, [])"
    by (simp add: ResolveMediaKey_def)
next
  show "DedupKeyPattern_match input \<longrightarrow>
        (\<exists>hash. DedupeKeyToSHA1 input = Inr hash \<and> length hash = 20
           \<and> ResolveMediaKey w input = (lookupReply w MediaNotFound hash, [FindByHash hash]))"
  proof
    assume m: "DedupKeyPattern_match input"
    then obtain hash where h: "DedupeKeyToSHA1 input = Inr hash" "length hash = 20"
      using pattern_decodes by blast
    from m have "input \<noteq> ''''" by (rule pattern_nonempty)
    with m h have
      "ResolveMediaKey w input = (lookupReply w MediaNotFound hash, [FindByHash hash])"
      by (simp add: ResolveMediaKey_def lookupReply_def split: option.splits)
    with h show "\<exists>hash. DedupeKeyToSHA1 input = Inr hash \<and> length hash = 20
        \<and> ResolveMediaKey w input = (lookupReply w MediaNotFound hash, [FindByHash hash])"
      by blast
  qed
next
  show "input \<noteq> '''' \<and> \<not> DedupKeyPattern_match input \<and> statOk w input \<longrightarrow>
        (case CalculateSHA1 w input of
           None \<Rightarrow> ResolveMediaKey w input = (Inl SHA1Failed, [Stat input, HashFile input])
         | Some hash \<Rightarrow>
             ResolveMediaKey w input =
               (lookupReply w FileNotFound hash, [Stat input, HashFile input, FindByHash hash]))"
    by (simp add: ResolveMediaKey_def lookupReply_def split: option.splits)
next
  show "input \<noteq> '''' \<and> \<not> DedupKeyPattern_match input \<and> \<not> statOk w input \<longrightarrow>
        ResolveMediaKey w input = (Inr input, [Stat input])"
    by (simp add: ResolveMediaKey_def)
next
  show "\<forall>hash. FindMediaKeyByHash w hash = Some '''' \<longrightarrow>
        lookupReply w MediaNotFound hash = Inl MediaNotFound
        \<and> lookupReply w FileNotFound hash = Inl FileNotFound"
    by (simp add: lookupReply_def)
qed

theorem resolve_media_key_cases_witness:
  "ResolveMediaKey emptyWorld '''' = (Inl KeyRequired, [])
   \<and> DedupKeyPattern_match ''AAAAAAAAAAAAAAAAAAAAAAAAAAA''
   \<and> DedupeKeyToSHA1 ''AAAAAAAAAAAAAAAAAAAAAAAAAAA'' = Inr zeroDigest
   \<and> ResolveMediaKey emptyWorld ''AAAAAAAAAAAAAAAAAAAAAAAAAAA''
       = (Inl MediaNotFound, [FindByHash zeroDigest])
   \<and> ResolveMediaKey oneFileWorld ''AAAAAAAAAAAAAAAAAAAAAAAAAAA''
       = (Inr ''AF1QipXYZ'', [FindByHash zeroDigest])
   \<and> ResolveMediaKey oneFileWorld ''a.jpg''
       = (Inr ''AF1QipXYZ'', [Stat ''a.jpg'', HashFile ''a.jpg'', FindByHash zeroDigest])
   \<and> ResolveMediaKey emptyWorld ''AF1QipXYZ'' = (Inr ''AF1QipXYZ'', [Stat ''AF1QipXYZ''])"
proof -
  let ?k = "''AAAAAAAAAAAAAAAAAAAAAAAAAAA''"
  have m: "DedupKeyPattern_match ?k"
    by (simp add: DedupKeyPattern_match_def dedupKeyClass_def alnum_def)
  have "b64encode zeroDigest = ?k"
    by (simp add: b64encode_def zeroDigest_def encodeURL_def alnum_def)
  then have "b64decode ?k = Some zeroDigest"
    using b64_roundtrip [of zeroDigest] by simp
  then have d: "DedupeKeyToSHA1 ?k = Inr zeroDigest"
    by (simp add: DedupeKeyToSHA1_def zeroDigest_def)
  have nm: "\<not> DedupKeyPattern_match ''a.jpg''" "\<not> DedupKeyPattern_match ''AF1QipXYZ''"
    by (simp_all add: DedupKeyPattern_match_def)
  have e: "FindMediaKeyByHash emptyWorld zeroDigest = Some ''''"
    by (simp add: emptyWorld_def)
  have 1: "ResolveMediaKey emptyWorld '''' = (Inl KeyRequired, [])"
    using resolve_media_key_cases [of "''''" emptyWorld] by simp
  have 2: "ResolveMediaKey emptyWorld ?k = (Inl MediaNotFound, [FindByHash zeroDigest])"
    using resolve_media_key_cases [of ?k emptyWorld] m d e by auto
  have 3: "ResolveMediaKey oneFileWorld ?k = (Inr ''AF1QipXYZ'', [FindByHash zeroDigest])"
    using resolve_media_key_cases [of ?k oneFileWorld] m d
    by (auto simp: lookupReply_def oneFileWorld_def)
  have 4: "ResolveMediaKey oneFileWorld ''a.jpg''
       = (Inr ''AF1QipXYZ'', [Stat ''a.jpg'', HashFile ''a.jpg'', FindByHash zeroDigest])"
    using resolve_media_key_cases [of "''a.jpg''" oneFileWorld] nm
    by (simp add: lookupReply_def oneFileWorld_def)
  have 5: "ResolveMediaKey emptyWorld ''AF1QipXYZ'' = (Inr ''AF1QipXYZ'', [Stat ''AF1QipXYZ''])"
    using resolve_media_key_cases [of "''AF1QipXYZ''" emptyWorld] nm
    by (simp add: emptyWorld_def)
  from m d 1 2 3 4 5 show ?thesis by blast
qed

section \<open>Upload commit: quality and quota to device model\<close>

text \<open>
  The fields of \<^verbatim>\<open>core.Api\<close> that \<^verbatim>\<open>CommitUpload\<close> reads. \<^verbatim>\<open>NewApi\<close> fixes the device
  identity (model "Pixel XL", make "Google", API version 28); the default quality and the
  default quota flag come from the configuration.
\<close>

record Api =
  Model :: string
  Make :: string
  AndroidAPIVersion :: int
  Quality :: string
  UseQuota :: bool

definition NewApi :: "string \<Rightarrow> bool \<Rightarrow> Api" where
  "NewApi cfgQuality cfgUseQuota =
     \<lparr>Model = ''Pixel XL'', Make = ''Google'', AndroidAPIVersion = 28,
      Quality = cfgQuality, UseQuota = cfgUseQuota\<rparr>"

text \<open>
  The head of \<^verbatim>\<open>CommitUpload\<close>: an empty quality argument falls back to the client's
  default, the quota flag is the disjunction of the argument and the default.
\<close>

definition effectiveQuality :: "Api \<Rightarrow> string \<Rightarrow> string" where
  "effectiveQuality a qualityStr = (if qualityStr = '''' then Quality a else qualityStr)"

definition effectiveUseQuota :: "Api \<Rightarrow> bool \<Rightarrow> bool" where
  "effectiveUseQuota a useQuota = (useQuota \<or> UseQuota a)"

text \<open>
  The model and the quality code that \<^verbatim>\<open>CommitUpload\<close> writes into the request
  (\<^verbatim>\<open>Field2.Model\<close> and \<^verbatim>\<open>Field1.Quality\<close>): the two assignments of the source, in order.
\<close>

definition commitModelQuality :: "Api \<Rightarrow> string \<Rightarrow> bool \<Rightarrow> string \<times> int" where
  "commitModelQuality a qualityStr useQuota =
     (let effQ = effectiveQuality a qualityStr;
          effU = effectiveUseQuota a useQuota;
          (model1, quality1) =
             (if effQ = ''storage-saver'' then (''Pixel 2'', 1) else (Model a, 3));
          model2 = (if effU then ''Pixel 8'' else model1)
      in (model2, quality1))"

text \<open>
  C4. With the quality and the quota flag in effect: storage-saver gives the quality code 1
  and, without quota, the model "Pixel 2"; any other quality gives the code 3 and, without
  quota, the client's own model; with quota the model is "Pixel 8" whatever the quality.
  A non-empty quality argument is the quality in effect.
\<close>

theorem commit_model_quality:
  "(effectiveQuality a q = ''storage-saver'' \<longrightarrow>
      snd (commitModelQuality a q u) = 1
      \<and> (\<not> effectiveUseQuota a u \<longrightarrow> fst (commitModelQuality a q u) = ''Pixel 2''))
   \<and> (effectiveQuality a q \<noteq> ''storage-saver'' \<longrightarrow>
      snd (commitModelQuality a q u) = 3
      \<and> (\<not> effectiveUseQuota a u \<longrightarrow> fst (commitModelQuality a q u) = Model a))
   \<and> (effectiveUseQuota a u \<longrightarrow> fst (commitModelQuality a q u) = ''Pixel 8'')
   \<and> (q \<noteq> '''' \<longrightarrow> effectiveQuality a q = q)
   \<and> (u \<longrightarrow> effectiveUseQuota a u)"
  by (simp add: commitModelQuality_def effectiveQuality_def effectiveUseQuota_def)

theorem commit_model_quality_witness:
  "commitModelQuality (NewApi '''' False) ''storage-saver'' False = (''Pixel 2'', 1)
   \<and> commitModelQuality (NewApi '''' False) ''original'' False = (''Pixel XL'', 3)
   \<and> commitModelQuality (NewApi '''' False) ''storage-saver'' True = (''Pixel 8'', 1)
   \<and> commitModelQuality (NewApi '''' False) ''original'' True = (''Pixel 8'', 3)"
proof -
  let ?a = "NewApi '''' False"
  have nq: "\<not> effectiveUseQuota ?a False"
    by (simp add: effectiveUseQuota_def NewApi_def)
  have m: "Model ?a = ''Pixel XL''"
    by (simp add: NewApi_def)
  have 1: "commitModelQuality ?a ''storage-saver'' False = (''Pixel 2'', 1)"
    using commit_model_quality [of ?a "''storage-saver''" False] nq
    by (simp add: prod_eq_iff)
  have 2: "commitModelQuality ?a ''original'' False = (''Pixel XL'', 3)"
    using commit_model_quality [of ?a "''original''" False] nq m
    by (simp add: prod_eq_iff)
  have 3: "commitModelQuality ?a ''storage-saver'' True = (''Pixel 8'', 1)"
    using commit_model_quality [of ?a "''storage-saver''" True]
    by (simp add: prod_eq_iff)
  have 4: "commitModelQuality ?a ''original'' True = (''Pixel 8'', 3)"
    using commit_model_quality [of ?a "''original''" True]
    by (simp add: prod_eq_iff)
  from 1 2 3 4 show ?thesis by blast
qed

section \<open>Go's string functions\<close>

text \<open>
  The functions of Go's \<^verbatim>\<open>strings\<close> and \<^verbatim>\<open>strconv\<close> packages that the code below calls,
  on strings as lists of bytes.
\<close>

text \<open>\<^verbatim>\<open>strings.Split(s, sep)\<close> for a one-byte separator: always at least one piece.\<close>

fun Split :: "char \<Rightarrow> string \<Rightarrow> string list" where
  "Split sep [] = [[]]"
| "Split sep (c # cs) =
     (if c = sep then [] # Split sep cs
      else (case Split sep cs of [] \<Rightarrow> [[c]] | x # xs \<Rightarrow> (c # x) # xs))"

text \<open>\<^verbatim>\<open>strings.SplitN(s, sep, 2)\<close>: cut at the first separator, if there is one.\<close>

definition SplitN2 :: "char \<Rightarrow> string \<Rightarrow> string list" where
  "SplitN2 sep s =
     (if sep \<in> set s then [takeWhile (\<lambda>c. c \<noteq> sep) s, tl (dropWhile (\<lambda>c. c \<noteq> sep) s)]
      else [s])"

text \<open>
  \<^verbatim>\<open>strings.TrimSpace\<close> removes leading and trailing white space as Unicode defines it.
  In UTF-8 these are the six ASCII characters tab, line feed, vertical tab, form feed,
  carriage return and space, and the encodings of U+0085, U+00A0, U+1680, U+2000 to U+200A,
  U+2028, U+2029, U+202F, U+205F and U+3000.
\<close>

definition spaceRunes :: "string list" where
  "spaceRunes =
     [[CHR 0x09], [CHR 0x0A], [CHR 0x0B], [CHR 0x0C], [CHR 0x0D], [CHR 0x20],
      [CHR 0xC2, CHR 0x85], [CHR 0xC2, CHR 0xA0], [CHR 0xE1, CHR 0x9A, CHR 0x80],
      [CHR 0xE2, CHR 0x80, CHR 0x80], [CHR 0xE2, CHR 0x80, CHR 0x81],
      [CHR 0xE2, CHR 0x80, CHR 0x82], [CHR 0xE2, CHR 0x80, CHR 0x83],
      [CHR 0xE2, CHR 0x80, CHR 0x84], [CHR 0xE2, CHR 0x80, CHR 0x85],
      [CHR 0xE2, CHR 0x80, CHR 0x86], [CHR 0xE2, CHR 0x80, CHR 0x87],
      [CHR 0xE2, CHR 0x80, CHR 0x88], [CHR 0xE2, CHR 0x80, CHR 0x89],
      [CHR 0xE2, CHR 0x80, CHR 0x8A], [CHR 0xE2, CHR 0x80, CHR 0xA8],
      [CHR 0xE2, CHR 0x80, CHR 0xA9], [CHR 0xE2, CHR 0x80, CHR 0xAF],
      [CHR 0xE2, CHR 0x81, CHR 0x9F], [CHR 0xE3, CHR 0x80, CHR 0x80]]"

text \<open>The rest of \<open>s\<close> after one leading rune of the list, if \<open>s\<close> starts with one.\<close>

fun dropRune :: "string list \<Rightarrow> string \<Rightarrow> string option" where
  "dropRune [] s = None"
| "dropRune (p # ps) s =
     (if p \<noteq> [] \<and> take (length p) s = p then Some (drop (length p) s) else dropRune ps s)"

lemma dropRune_shorter: "dropRune ps s = Some r \<Longrightarrow> length r < length s"
proof (induction ps)
  case Nil
  then show ?case by simp
next
  case (Cons p ps)
  show ?case
  proof (cases "p \<noteq> [] \<and> take (length p) s = p")
    case True
    then have "s \<noteq> []" by auto
    with True Cons.prems show ?thesis by auto
  next
    case False
    with Cons show ?thesis by auto
  qed
qed

function trimLeftRunes :: "string list \<Rightarrow> string \<Rightarrow> string" where
  "trimLeftRunes ps s = (case dropRune ps s of None \<Rightarrow> s | Some r \<Rightarrow> trimLeftRunes ps r)"
  by pat_completeness auto
termination
  by (relation "measure (\<lambda>(ps, s). length s)") (auto dest: dropRune_shorter)

definition TrimSpace :: "string \<Rightarrow> string" where
  "TrimSpace s = rev (trimLeftRunes (map rev spaceRunes) (rev (trimLeftRunes spaceRunes s)))"

text \<open>\<^verbatim>\<open>strings.Trim(s, cutset)\<close>: leading and trailing bytes of the (ASCII) cutset removed.\<close>

definition Trim :: "string \<Rightarrow> string \<Rightarrow> string" where
  "Trim s cutset =
     rev (dropWhile (\<lambda>c. c \<in> set cutset) (rev (dropWhile (\<lambda>c. c \<in> set cutset) s)))"

text \<open>
  \<^verbatim>\<open>strconv.ParseUint(s, 10, 64)\<close>: the digits are accumulated in an unsigned 64-bit
  number; the loop stops with a syntax error at the first byte that is not a digit and
  with a range error as soon as the number leaves 64 bits.
\<close>

datatype num_error = ErrSyntax | ErrRange

definition digitOf :: "char \<Rightarrow> nat option" where
  "digitOf c = index_of c ''0123456789''"

fun parseDigits :: "int \<Rightarrow> string \<Rightarrow> num_error + int" where
  "parseDigits n [] = Inr n"
| "parseDigits n (c # cs) =
     (case digitOf c of
        None \<Rightarrow> Inl ErrSyntax
      | Some d \<Rightarrow>
          if n \<ge> (2 ^ 64 - 1) div 10 + 1 then Inl ErrRange
          else if n * 10 + int d > 2 ^ 64 - 1 then Inl ErrRange
          else parseDigits (n * 10 + int d) cs)"

definition ParseUint :: "string \<Rightarrow> num_error + int" where
  "ParseUint s = (if s = [] then Inl ErrSyntax else parseDigits 0 s)"

text \<open>
  \<^verbatim>\<open>strconv.ParseInt(s, 10, 64)\<close>: an optional sign, then \<^verbatim>\<open>ParseUint\<close>; a magnitude
  outside the signed 64-bit range is a range error.
\<close>

definition ParseInt :: "string \<Rightarrow> num_error + int" where
  "ParseInt s =
     (if s = [] then Inl ErrSyntax
      else let neg = (hd s = CHR ''-'');
               ds = (if hd s = CHR ''+'' \<or> hd s = CHR ''-'' then tl s else s)
           in (case ParseUint ds of
                 Inl ErrSyntax \<Rightarrow> Inl ErrSyntax
               | Inl ErrRange \<Rightarrow> Inl ErrRange
               | Inr un \<Rightarrow>
                   if \<not> neg \<and> un \<ge> 2 ^ 63 then Inl ErrRange
                   else if neg \<and> un > 2 ^ 63 then Inl ErrRange
                   else Inr (if neg then - un else un)))"

section \<open>Auth manager\<close>

subsection \<open>Token exchange\<close>

text \<open>
  What \<^verbatim>\<open>refreshAccessToken\<close> meets outside the program: whether the credential string
  parses as a query (\<^verbatim>\<open>url.ParseQuery\<close>), and the answer to the POST, which is either a
  transport failure or a status code with the body as \<^verbatim>\<open>readGzipBody\<close> delivers it
  (\<open>None\<close> when reading or inflating fails).
\<close>

datatype http_reply = TransportFailed | Response int "string option"

record exchange =
  authDataParses :: bool
  reply :: http_reply

datatype auth_error =
    ParseAuthDataFailed     \<comment> \<open>"failed to parse auth data"\<close>
  | AuthRequestFailed       \<comment> \<open>"auth request failed"\<close>
  | RequestStatus int       \<comment> \<open>"request failed with status ..."\<close>
  | ReadBodyFailed          \<comment> \<open>"failed to read response body"\<close>
  | MissingAuthOrExpiry     \<comment> \<open>"auth response missing Auth or Expiry token"\<close>
  | ParseExpiryFailed num_error  \<comment> \<open>"failed to parse expiry"\<close>
  | RefreshFailed auth_error     \<comment> \<open>"failed to refresh auth token"\<close>

text \<open>
  The loop over the lines of the reply: a line is trimmed, an empty line skipped, and a
  line with an equals sign stores the text after the first equals sign under the text
  before it; a later line overwrites an earlier one.
\<close>

fun parseLines :: "string list \<Rightarrow> (string \<rightharpoonup> string) \<Rightarrow> (string \<rightharpoonup> string)" where
  "parseLines [] m = m"
| "parseLines (l # ls) m =
     (let line = TrimSpace l in
      if line = '''' then parseLines ls m
      else (case SplitN2 (CHR ''='') line of
              [k, v] \<Rightarrow> parseLines ls (m(k \<mapsto> v))
            | _ \<Rightarrow> parseLines ls m))"

definition parsedAuthResponse :: "string \<Rightarrow> (string \<rightharpoonup> string)" where
  "parsedAuthResponse body = parseLines (Split (CHR 0x0A) body) Map.empty"

text \<open>Reading a Go map of strings: a missing key reads as the empty string.\<close>

definition mapGet :: "(string \<rightharpoonup> string) \<Rightarrow> string \<Rightarrow> string" where
  "mapGet m k = (case m k of None \<Rightarrow> '''' | Some v \<Rightarrow> v)"

definition refreshAccessToken :: "exchange \<Rightarrow> auth_error + string \<times> int" where
  "refreshAccessToken x =
     (if \<not> authDataParses x then Inl ParseAuthDataFailed
      else case reply x of
        TransportFailed \<Rightarrow> Inl AuthRequestFailed
      | Response status body \<Rightarrow>
          if \<not> (200 \<le> status \<and> status < 300) then Inl (RequestStatus status)
          else (case body of
                  None \<Rightarrow> Inl ReadBodyFailed
                | Some bodyBytes \<Rightarrow>
                    let parsed = parsedAuthResponse bodyBytes in
                    if mapGet parsed ''Auth'' = '''' \<or> mapGet parsed ''Expiry'' = ''''
                    then Inl MissingAuthOrExpiry
                    else (case ParseInt (mapGet parsed ''Expiry'') of
                            Inl e \<Rightarrow> Inl (ParseExpiryFailed e)
                          | Inr expiryInt \<Rightarrow> Inr (mapGet parsed ''Auth'', expiryInt))))"

text \<open>A reply with status 200 and the given body, to a well-formed credential string.\<close>

definition okReply :: "string \<Rightarrow> exchange" where
  "okReply body = \<lparr>authDataParses = True, reply = Response 200 (Some body)\<rparr>"

text \<open>The reply of the spec's scenario: \<^verbatim>\<open>Auth=abc\nExpiry=9999999999\n\<close>.\<close>

definition scenarioBody :: string where
  "scenarioBody = ''Auth=abc'' @ [CHR 0x0A] @ ''Expiry=9999999999'' @ [CHR 0x0A]"

lemma refresh_success_iff:
  "refreshAccessToken x = Inr (auth, expiryInt) \<longleftrightarrow>
     authDataParses x
     \<and> (\<exists>status body v. reply x = Response status (Some body)
           \<and> 200 \<le> status \<and> status < 300
           \<and> parsedAuthResponse body ''Auth'' = Some auth \<and> auth \<noteq> ''''
           \<and> parsedAuthResponse body ''Expiry'' = Some v \<and> v \<noteq> ''''
           \<and> ParseInt v = Inr expiryInt)"
  by (auto simp: refreshAccessToken_def mapGet_def Let_def
      split: http_reply.splits option.splits sum.splits if_splits)

text \<open>
  C8. When the reply lacks the key \<open>Auth\<close> or the key \<open>Expiry\<close>, the exchange fails,
  and with the error "missing Auth or Expiry" when the request itself went through; when
  the value of \<open>Expiry\<close> does not parse as a decimal 64-bit integer, the exchange fails,
  with the error "failed to parse expiry" when \<open>Auth\<close> is there; and a successful
  exchange returns exactly the value stored under \<open>Auth\<close> and the number that the value
  stored under \<open>Expiry\<close> parses to.
\<close>

theorem token_exchange_reply:
  "(reply x = Response status (Some body)
      \<and> (parsedAuthResponse body ''Auth'' = None \<or> parsedAuthResponse body ''Expiry'' = None)
     \<longrightarrow> (\<exists>e. refreshAccessToken x = Inl e)
        \<and> (authDataParses x \<and> 200 \<le> status \<and> status < 300
             \<longrightarrow> refreshAccessToken x = Inl MissingAuthOrExpiry))
   \<and> (reply x = Response status (Some body)
      \<and> parsedAuthResponse body ''Expiry'' = Some v \<and> ParseInt v = Inl e
     \<longrightarrow> (\<exists>e'. refreshAccessToken x = Inl e')
        \<and> (authDataParses x \<and> 200 \<le> status \<and> status < 300 \<and> v \<noteq> ''''
             \<and> mapGet (parsedAuthResponse body) ''Auth'' \<noteq> ''''
             \<longrightarrow> refreshAccessToken x = Inl (ParseExpiryFailed e)))
   \<and> (refreshAccessToken x = Inr (auth, expiryInt)
     \<longrightarrow> (\<exists>status' body' v'. reply x = Response status' (Some body')
           \<and> parsedAuthResponse body' ''Auth'' = Some auth
           \<and> parsedAuthResponse body' ''Expiry'' = Some v'
           \<and> ParseInt v' = Inr expiryInt))"
proof (intro conjI)
  show "reply x = Response status (Some body)
      \<and> (parsedAuthResponse body ''Auth'' = None \<or> parsedAuthResponse body ''Expiry'' = None)
     \<longrightarrow> (\<exists>e. refreshAccessToken x = Inl e)
        \<and> (authDataParses x \<and> 200 \<le> status \<and> status < 300
             \<longrightarrow> refreshAccessToken x = Inl MissingAuthOrExpiry)"
    by (auto simp: refreshAccessToken_def mapGet_def Let_def)
next
  show "reply x = Response status (Some body)
      \<and> parsedAuthResponse body ''Expiry'' = Some v \<and> ParseInt v = Inl e
     \<longrightarrow> (\<exists>e'. refreshAccessToken x = Inl e')
        \<and> (authDataParses x \<and> 200 \<le> status \<and> status < 300 \<and> v \<noteq> ''''
             \<and> mapGet (parsedAuthResponse body) ''Auth'' \<noteq> ''''
             \<longrightarrow> refreshAccessToken x = Inl (ParseExpiryFailed e))"
    by (auto simp: refreshAccessToken_def mapGet_def Let_def)
next
  show "refreshAccessToken x = Inr (auth, expiryInt)
     \<longrightarrow> (\<exists>status' body' v'. reply x = Response status' (Some body')
           \<and> parsedAuthResponse body' ''Auth'' = Some auth
           \<and> parsedAuthResponse body' ''Expiry'' = Some v'
           \<and> ParseInt v' = Inr expiryInt)"
    using refresh_success_iff [of x auth expiryInt] by blast
qed

lemma parsed_scenario:
  "parsedAuthResponse scenarioBody = [''Auth'' \<mapsto> ''abc'', ''Expiry'' \<mapsto> ''9999999999'']"
  by (simp add: parsedAuthResponse_def scenarioBody_def TrimSpace_def spaceRunes_def SplitN2_def)

lemma parsed_no_expiry: "parsedAuthResponse ''Auth=abc'' = [''Auth'' \<mapsto> ''abc'']"
  by (simp add: parsedAuthResponse_def TrimSpace_def spaceRunes_def SplitN2_def)

lemma parsed_bad_expiry:
  "parsedAuthResponse (''Expiry=soon'' @ [CHR 0x0A] @ ''Auth=abc'')
     = [''Expiry'' \<mapsto> ''soon'', ''Auth'' \<mapsto> ''abc'']"
  by (simp add: parsedAuthResponse_def TrimSpace_def spaceRunes_def SplitN2_def)

lemma ParseInt_soon: "ParseInt ''soon'' = Inl ErrSyntax"
  by (simp add: ParseInt_def ParseUint_def digitOf_def)

lemma ParseInt_scenario: "ParseInt ''9999999999'' = Inr 9999999999"
  by (simp add: ParseInt_def ParseUint_def digitOf_def)

lemma refresh_scenario: "refreshAccessToken (okReply scenarioBody) = Inr (''abc'', 9999999999)"
  by (simp add: refreshAccessToken_def okReply_def parsed_scenario mapGet_def ParseInt_scenario)

theorem token_exchange_reply_witness:
  "refreshAccessToken (okReply ''Auth=abc'') = Inl MissingAuthOrExpiry
   \<and> refreshAccessToken (okReply (''Expiry=soon'' @ [CHR 0x0A] @ ''Auth=abc''))
       = Inl (ParseExpiryFailed ErrSyntax)
   \<and> refreshAccessToken (okReply scenarioBody) = Inr (''abc'', 9999999999)
   \<and> parsedAuthResponse scenarioBody ''Auth'' = Some ''abc''
   \<and> (\<exists>v. parsedAuthResponse scenarioBody ''Expiry'' = Some v \<and> ParseInt v = Inr 9999999999)"
proof -
  have 1: "refreshAccessToken (okReply ''Auth=abc'') = Inl MissingAuthOrExpiry"
    using token_exchange_reply [of "okReply ''Auth=abc''" 200 "''Auth=abc''"]
    by (simp add: okReply_def parsed_no_expiry)
  have 2: "refreshAccessToken (okReply (''Expiry=soon'' @ [CHR 0x0A] @ ''Auth=abc''))
       = Inl (ParseExpiryFailed ErrSyntax)"
    using token_exchange_reply [of "okReply (''Expiry=soon'' @ [CHR 0x0A] @ ''Auth=abc'')" 200
        "''Expiry=soon'' @ [CHR 0x0A] @ ''Auth=abc''" "''soon''" ErrSyntax]
      parsed_bad_expiry ParseInt_soon
    by (simp add: okReply_def mapGet_def)
  have 3: "refreshAccessToken (okReply scenarioBody) = Inr (''abc'', 9999999999)"
    by (rule refresh_scenario)
  have "\<exists>status' body' v'. reply (okReply scenarioBody) = Response status' (Some body')
           \<and> parsedAuthResponse body' ''Auth'' = Some ''abc''
           \<and> parsedAuthResponse body' ''Expiry'' = Some v'
           \<and> ParseInt v' = Inr 9999999999"
    using token_exchange_reply [of "okReply scenarioBody" _ _ _ _ "''abc''" 9999999999] 3
    by blast
  then have 4: "parsedAuthResponse scenarioBody ''Auth'' = Some ''abc''
      \<and> (\<exists>v. parsedAuthResponse scenarioBody ''Expiry'' = Some v \<and> ParseInt v = Inr 9999999999)"
    by (auto simp: okReply_def)
  from 1 2 3 4 show ?thesis by blast
qed

subsection \<open>The cached token\<close>

text \<open>\<^verbatim>\<open>MemoryTokenCache\<close>, the token cache a client has unless it is given another.\<close>

record MemoryTokenCache =
  token :: string
  expiry :: int

definition NewMemoryTokenCache :: MemoryTokenCache where
  "NewMemoryTokenCache = \<lparr>token = '''', expiry = 0\<rparr>"

definition Get :: "MemoryTokenCache \<Rightarrow> string \<times> int" where
  "Get c = (token c, expiry c)"

definition Set :: "MemoryTokenCache \<Rightarrow> string \<Rightarrow> int \<Rightarrow> MemoryTokenCache" where
  "Set c t e = c\<lparr>token := t, expiry := e\<rparr>"

text \<open>
  What \<^verbatim>\<open>GetAuthToken\<close> does to the outside, in order: it reads the cache, the exchange
  sends its POST (unless the credential string does not parse, which fails before any
  request is made), and a new token is written to the cache.
\<close>

datatype auth_effect = CacheGet | HttpPost | CacheSet string int

definition posts :: "exchange \<Rightarrow> auth_effect list" where
  "posts x = (if authDataParses x then [HttpPost] else [])"

text \<open>
  \<^verbatim>\<open>GetAuthToken\<close> under the manager's lock: \<open>now\<close> is \<^verbatim>\<open>time.Now().Unix()\<close>, \<open>x\<close> what the
  exchange would meet. The result is the returned value, the cache afterwards and the
  effects.
\<close>

definition GetAuthToken ::
  "MemoryTokenCache \<Rightarrow> int \<Rightarrow> exchange
     \<Rightarrow> (auth_error + string) \<times> MemoryTokenCache \<times> auth_effect list" where
  "GetAuthToken c now x =
     (let (tok, exp) = Get c in
      if tok \<noteq> '''' \<and> exp > now then (Inr tok, c, [CacheGet])
      else (case refreshAccessToken x of
              Inl err \<Rightarrow> (Inl (RefreshFailed err), c, CacheGet # posts x)
            | Inr (tok', exp') \<Rightarrow>
                (Inr tok', Set c tok' exp', CacheGet # posts x @ [CacheSet tok' exp'])))"

definition tokenValid :: "MemoryTokenCache \<Rightarrow> int \<Rightarrow> bool" where
  "tokenValid c now = (token c \<noteq> '''' \<and> expiry c > now)"

lemma refresh_ok_parses: "refreshAccessToken x = Inr r \<Longrightarrow> authDataParses x"
  by (cases r) (simp add: refresh_success_iff)

text \<open>
  C3. The cached token is returned with no request sent exactly when it is non-empty and
  its expiry lies strictly after the current time; then the cache is left as it is.
  Otherwise one exchange is made: when it succeeds with \<open>(auth, exp)\<close>, exactly one POST is
  sent, the pair is written to the cache (which then holds it) and \<open>auth\<close> is returned;
  when it fails, the error is returned and the cache is left as it is.
\<close>

theorem get_auth_token:
  "(tokenValid c now \<longrightarrow> GetAuthToken c now x = (Inr (token c), c, [CacheGet]))
   \<and> ((fst (GetAuthToken c now x) = Inr (token c)
        \<and> HttpPost \<notin> set (snd (snd (GetAuthToken c now x)))) \<longleftrightarrow> tokenValid c now)
   \<and> (\<not> tokenValid c now \<and> refreshAccessToken x = Inr (auth, exp) \<longrightarrow>
        GetAuthToken c now x
          = (Inr auth, Set c auth exp, [CacheGet, HttpPost, CacheSet auth exp])
        \<and> Get (Set c auth exp) = (auth, exp))
   \<and> (\<not> tokenValid c now \<and> refreshAccessToken x = Inl err \<longrightarrow>
        GetAuthToken c now x = (Inl (RefreshFailed err), c, CacheGet # posts x))"
proof (intro conjI)
  show "tokenValid c now \<longrightarrow> GetAuthToken c now x = (Inr (token c), c, [CacheGet])"
    by (simp add: GetAuthToken_def tokenValid_def Get_def)
next
  show "(fst (GetAuthToken c now x) = Inr (token c)
        \<and> HttpPost \<notin> set (snd (snd (GetAuthToken c now x)))) \<longleftrightarrow> tokenValid c now"
  proof (cases "tokenValid c now")
    case True
    then show ?thesis by (simp add: GetAuthToken_def tokenValid_def Get_def)
  next
    case False
    show ?thesis
    proof (cases "refreshAccessToken x")
      case (Inl err)
      with False show ?thesis by (simp add: GetAuthToken_def tokenValid_def Get_def)
    next
      case (Inr r)
      then have "authDataParses x" by (rule refresh_ok_parses)
      with False Inr show ?thesis
        by (cases r) (simp add: GetAuthToken_def tokenValid_def Get_def posts_def)
    qed
  qed
next
  show "\<not> tokenValid c now \<and> refreshAccessToken x = Inr (auth, exp) \<longrightarrow>
        GetAuthToken c now x
          = (Inr auth, Set c auth exp, [CacheGet, HttpPost, CacheSet auth exp])
        \<and> Get (Set c auth exp) = (auth, exp)"
  proof
    assume a: "\<not> tokenValid c now \<and> refreshAccessToken x = Inr (auth, exp)"
    then have "authDataParses x" using refresh_ok_parses by blast
    with a show "GetAuthToken c now x
          = (Inr auth, Set c auth exp, [CacheGet, HttpPost, CacheSet auth exp])
        \<and> Get (Set c auth exp) = (auth, exp)"
      by (simp add: GetAuthToken_def tokenValid_def Get_def Set_def posts_def)
  qed
next
  show "\<not> tokenValid c now \<and> refreshAccessToken x = Inl err \<longrightarrow>
        GetAuthToken c now x = (Inl (RefreshFailed err), c, CacheGet # posts x)"
    by (simp add: GetAuthToken_def tokenValid_def Get_def)
qed

theorem get_auth_token_witness:
  "GetAuthToken \<lparr>token = ''old'', expiry = 2000\<rparr> 1000 (okReply scenarioBody)
     = (Inr ''old'', \<lparr>token = ''old'', expiry = 2000\<rparr>, [CacheGet])
   \<and> GetAuthToken \<lparr>token = ''old'', expiry = 1000\<rparr> 1000 (okReply scenarioBody)
     = (Inr ''abc'', \<lparr>token = ''abc'', expiry = 9999999999\<rparr>,
        [CacheGet, HttpPost, CacheSet ''abc'' 9999999999])
   \<and> GetAuthToken NewMemoryTokenCache 1000 (okReply scenarioBody)
     = (Inr ''abc'', \<lparr>token = ''abc'', expiry = 9999999999\<rparr>,
        [CacheGet, HttpPost, CacheSet ''abc'' 9999999999])
   \<and> GetAuthToken NewMemoryTokenCache 1000 (okReply ''Auth=abc'')
     = (Inl (RefreshFailed MissingAuthOrExpiry), NewMemoryTokenCache, [CacheGet, HttpPost])"
proof -
  have 1: "GetAuthToken \<lparr>token = ''old'', expiry = 2000\<rparr> 1000 (okReply scenarioBody)
     = (Inr ''old'', \<lparr>token = ''old'', expiry = 2000\<rparr>, [CacheGet])"
    using get_auth_token [of "\<lparr>token = ''old'', expiry = 2000\<rparr>" 1000 "okReply scenarioBody"]
    by (simp add: tokenValid_def)
  have 2: "GetAuthToken \<lparr>token = ''old'', expiry = 1000\<rparr> 1000 (okReply scenarioBody)
     = (Inr ''abc'', \<lparr>token = ''abc'', expiry = 9999999999\<rparr>,
        [CacheGet, HttpPost, CacheSet ''abc'' 9999999999])"
    using get_auth_token [of "\<lparr>token = ''old'', expiry = 1000\<rparr>" 1000 "okReply scenarioBody"
        "''abc''" 9999999999] refresh_scenario
    by (simp add: tokenValid_def Set_def)
  have 3: "GetAuthToken NewMemoryTokenCache 1000 (okReply scenarioBody)
     = (Inr ''abc'', \<lparr>token = ''abc'', expiry = 9999999999\<rparr>,
        [CacheGet, HttpPost, CacheSet ''abc'' 9999999999])"
    using get_auth_token [of NewMemoryTokenCache 1000 "okReply scenarioBody"
        "''abc''" 9999999999] refresh_scenario
    by (simp add: tokenValid_def Set_def NewMemoryTokenCache_def)
  have "refreshAccessToken (okReply ''Auth=abc'') = Inl MissingAuthOrExpiry"
    by (simp add: refreshAccessToken_def okReply_def parsed_no_expiry mapGet_def)
  then have 4: "GetAuthToken NewMemoryTokenCache 1000 (okReply ''Auth=abc'')
     = (Inl (RefreshFailed MissingAuthOrExpiry), NewMemoryTokenCache, [CacheGet, HttpPost])"
    using get_auth_token [of NewMemoryTokenCache 1000 "okReply ''Auth=abc''" _ _
        MissingAuthOrExpiry]
    by (simp add: tokenValid_def NewMemoryTokenCache_def posts_def okReply_def)
  from 1 2 3 4 show ?thesis by blast
qed

section \<open>Download to file: the file name\<close>

text \<open>\<^verbatim>\<open>strings.HasPrefix\<close>, \<^verbatim>\<open>strings.TrimPrefix\<close>, \<^verbatim>\<open>strings.Index\<close> and \<^verbatim>\<open>strings.Contains\<close>.\<close>

definition HasPrefix :: "string \<Rightarrow> string \<Rightarrow> bool" where
  "HasPrefix s p = (take (length p) s = p)"

definition TrimPrefix :: "string \<Rightarrow> string \<Rightarrow> string" where
  "TrimPrefix s p = (if HasPrefix s p then drop (length p) s else s)"

fun Index :: "string \<Rightarrow> string \<Rightarrow> nat option" where
  "Index [] sub = (if sub = [] then Some 0 else None)"
| "Index (c # cs) sub =
     (if HasPrefix (c # cs) sub then Some 0 else map_option Suc (Index cs sub))"

definition Contains :: "string \<Rightarrow> string \<Rightarrow> bool" where
  "Contains s sub = (Index s sub \<noteq> None)"

text \<open>
  \<^verbatim>\<open>url.PathUnescape\<close>: every \<^verbatim>\<open>%XY\<close> with two hexadecimal digits becomes the byte it
  names; a percent sign not followed by two hexadecimal digits is an error (\<open>None\<close>); all
  other bytes, the plus sign too, stay.
\<close>

definition unhex :: "char \<Rightarrow> nat option" where
  "unhex c =
     (case index_of c ''0123456789abcdef'' of
        Some d \<Rightarrow> Some d
      | None \<Rightarrow> map_option (\<lambda>d. d + 10) (index_of c ''ABCDEF''))"

fun PathUnescape :: "string \<Rightarrow> string option" where
  "PathUnescape [] = Some []"
| "PathUnescape [c] = (if c = CHR ''%'' then None else Some [c])"
| "PathUnescape [c, d] =
     (if c = CHR ''%'' then None else map_option ((#) c) (PathUnescape [d]))"
| "PathUnescape (c # h1 # h2 # rest) =
     (if c = CHR ''%'' then
        (case (unhex h1, unhex h2) of
           (Some a, Some b) \<Rightarrow> map_option ((#) (char_of (a * 16 + b))) (PathUnescape rest)
         | _ \<Rightarrow> None)
      else map_option ((#) c) (PathUnescape (h1 # h2 # rest)))"

text \<open>
  \<^verbatim>\<open>extractFilenameFromContentDisposition\<close>: the loop over the parts of the header between
  semicolons. A part \<^verbatim>\<open>filename*=\<close> with two single quotes in its value ends the loop
  with the text after them, percent-decoded when that succeeds; without the quotes the
  loop goes on. A part \<^verbatim>\<open>filename=\<close> ends the loop with its value, double quotes trimmed.
\<close>

fun extractFromParts :: "string list \<Rightarrow> string" where
  "extractFromParts [] = ''''"
| "extractFromParts (p # ps) =
     (let part = TrimSpace p in
      if HasPrefix part ''filename*='' then
        (let v = TrimPrefix part ''filename*='' in
         case Index v [CHR 0x27, CHR 0x27] of
           Some idx \<Rightarrow>
             (let filename = drop (idx + 2) v in
              case PathUnescape filename of Some decoded \<Rightarrow> decoded | None \<Rightarrow> filename)
         | None \<Rightarrow> extractFromParts ps)
      else if HasPrefix part ''filename='' then Trim (TrimPrefix part ''filename='') [CHR 0x22]
      else extractFromParts ps)"

definition extractFilenameFromContentDisposition :: "string \<Rightarrow> string" where
  "extractFilenameFromContentDisposition header =
     (if header = '''' then '''' else extractFromParts (Split (CHR '';'') header))"

text \<open>
  \<^verbatim>\<open>extractFilenameFromURL\<close>: the loop runs from the last path segment to the first and
  returns the first segment it meets that is not empty and contains a dot. The parser
  \<^verbatim>\<open>url.Parse\<close> of Go's library is a parameter: it gives the \<^verbatim>\<open>Path\<close> of the URL, or
  \<open>None\<close> for an error.
\<close>

fun firstDotted :: "string list \<Rightarrow> string" where
  "firstDotted [] = ''''"
| "firstDotted (segment # rest) =
     (if segment \<noteq> '''' \<and> Contains segment ''.'' then segment else firstDotted rest)"

definition extractFilenameFromURL :: "(string \<Rightarrow> string option) \<Rightarrow> string \<Rightarrow> string" where
  "extractFilenameFromURL urlParsePath urlStr =
     (case urlParsePath urlStr of
        None \<Rightarrow> ''''
      | Some path \<Rightarrow> firstDotted (rev (Split (CHR ''/'') path)))"

text \<open>
  \<^verbatim>\<open>DownloadFile\<close> up to its last line: the answer to the GET is a transport failure or a
  status code with the value of the \<^verbatim>\<open>Content-Disposition\<close> header (empty when the header
  is absent). The result is the file name handed to \<^verbatim>\<open>DownloadFromReader\<close>.
\<close>

datatype get_reply = GetFailed | GetResponse int string

datatype download_error =
    DownloadRequestFailed   \<comment> \<open>"download request failed"\<close>
  | DownloadStatus int      \<comment> \<open>"download failed with status ..."\<close>

definition DownloadFile_filename ::
  "(string \<Rightarrow> string option) \<Rightarrow> get_reply \<Rightarrow> string \<Rightarrow> string \<Rightarrow> download_error + string" where
  "DownloadFile_filename urlParsePath resp downloadURL filename =
     (case resp of
        GetFailed \<Rightarrow> Inl DownloadRequestFailed
      | GetResponse status disposition \<Rightarrow>
          if status < 200 \<or> status \<ge> 300 then Inl (DownloadStatus status)
          else
            (let filename1 =
                   (if filename = '''' then extractFilenameFromContentDisposition disposition
                    else filename);
                 filename2 =
                   (if filename1 = '''' then extractFilenameFromURL urlParsePath downloadURL
                    else filename1);
                 filename3 = (if filename2 = '''' then ''download'' else filename2)
             in Inr filename3))"

text \<open>The segments of a path that can serve as a file name, in order.\<close>

definition dottedSegments :: "string \<Rightarrow> string list" where
  "dottedSegments path = filter (\<lambda>s. s \<noteq> '''' \<and> CHR ''.'' \<in> set s) (Split (CHR ''/'') path)"

text \<open>
  A parser for examples: it knows the paths of two URLs and rejects everything else.
\<close>

definition exampleParse :: "string \<Rightarrow> string option" where
  "exampleParse u =
     (if u = ''https://h/v1.0/photos/IMG_1.jpg/'' then Some ''/v1.0/photos/IMG_1.jpg/''
      else if u = ''https://h/photos/raw'' then Some ''/photos/raw''
      else None)"

lemma Contains_dot: "Contains s ''.'' \<longleftrightarrow> CHR ''.'' \<in> set s"
  by (induction s) (auto simp: Contains_def HasPrefix_def)

lemma firstDotted_rev:
  "firstDotted (rev segs) =
     (let d = filter (\<lambda>s. s \<noteq> '''' \<and> CHR ''.'' \<in> set s) segs
      in if d = [] then '''' else last d)"
  by (induction segs rule: rev_induct) (simp_all add: Contains_dot Let_def)

lemma HasPrefix_append: "HasPrefix s p \<longleftrightarrow> (\<exists>r. s = p @ r)"
proof
  assume "HasPrefix s p"
  then have "s = p @ drop (length p) s"
    using append_take_drop_id [of "length p" s] by (simp add: HasPrefix_def)
  then show "\<exists>r. s = p @ r" ..
next
  assume "\<exists>r. s = p @ r"
  then show "HasPrefix s p" by (auto simp: HasPrefix_def)
qed

lemma prefix_plain_not_star:
  assumes "HasPrefix part ''filename=''"
  shows "\<not> HasPrefix part ''filename*=''"
  using assms by (auto simp: HasPrefix_append)

text \<open>
  C9. For a download whose request succeeds with a status from 200 to 299, the file name
  is the caller's when that is not empty; else the name taken from the
  \<^verbatim>\<open>Content-Disposition\<close> header when that is not empty; else the last path segment of
  the URL that is not empty and contains a dot, when there is one; else \<^verbatim>\<open>download\<close>.
  The name from the header is the value of the first part \<^verbatim>\<open>filename=\<close> (double quotes
  trimmed) or \<^verbatim>\<open>filename*=\<close> (the text after the two single quotes, percent-decoded when
  it decodes), whichever part comes first.
\<close>

theorem download_filename_priority:
  "(200 \<le> status \<and> status < 300 \<longrightarrow>
      DownloadFile_filename urlParsePath (GetResponse status disposition) url provided =
        Inr (if provided \<noteq> '''' then provided
             else if extractFilenameFromContentDisposition disposition \<noteq> ''''
               then extractFilenameFromContentDisposition disposition
             else if extractFilenameFromURL urlParsePath url \<noteq> ''''
               then extractFilenameFromURL urlParsePath url
             else ''download''))
   \<and> extractFilenameFromURL urlParsePath url =
       (case urlParsePath url of
          None \<Rightarrow> ''''
        | Some path \<Rightarrow> if dottedSegments path = [] then '''' else last (dottedSegments path))
   \<and> extractFilenameFromContentDisposition '''' = ''''
   \<and> (HasPrefix (TrimSpace p) ''filename='' \<longrightarrow>
        extractFromParts (p # ps) = Trim (TrimPrefix (TrimSpace p) ''filename='') [CHR 0x22])
   \<and> (HasPrefix (TrimSpace p) ''filename*=''
        \<and> Index (TrimPrefix (TrimSpace p) ''filename*='') [CHR 0x27, CHR 0x27] = Some idx \<longrightarrow>
        extractFromParts (p # ps) =
          (case PathUnescape (drop (idx + 2) (TrimPrefix (TrimSpace p) ''filename*='')) of
             Some decoded \<Rightarrow> decoded
           | None \<Rightarrow> drop (idx + 2) (TrimPrefix (TrimSpace p) ''filename*='')))
   \<and> (\<not> HasPrefix (TrimSpace p) ''filename='' \<and> \<not> HasPrefix (TrimSpace p) ''filename*='' \<longrightarrow>
        extractFromParts (p # ps) = extractFromParts ps)"
proof (intro conjI)
  show "200 \<le> status \<and> status < 300 \<longrightarrow>
      DownloadFile_filename urlParsePath (GetResponse status disposition) url provided =
        Inr (if provided \<noteq> '''' then provided
             else if extractFilenameFromContentDisposition disposition \<noteq> ''''
               then extractFilenameFromContentDisposition disposition
             else if extractFilenameFromURL urlParsePath url \<noteq> ''''
               then extractFilenameFromURL urlParsePath url
             else ''download'')"
    by (simp add: DownloadFile_filename_def Let_def)
next
  show "extractFilenameFromURL urlParsePath url =
       (case urlParsePath url of
          None \<Rightarrow> ''''
        | Some path \<Rightarrow> if dottedSegments path = [] then '''' else last (dottedSegments path))"
    by (simp add: extractFilenameFromURL_def firstDotted_rev dottedSegments_def Let_def
        split: option.splits)
next
  show "extractFilenameFromContentDisposition '''' = ''''"
    by (simp add: extractFilenameFromContentDisposition_def)
next
  show "HasPrefix (TrimSpace p) ''filename='' \<longrightarrow>
        extractFromParts (p # ps) = Trim (TrimPrefix (TrimSpace p) ''filename='') [CHR 0x22]"
    using prefix_plain_not_star [of "TrimSpace p"] by (simp add: Let_def)
next
  show "HasPrefix (TrimSpace p) ''filename*=''
        \<and> Index (TrimPrefix (TrimSpace p) ''filename*='') [CHR 0x27, CHR 0x27] = Some idx \<longrightarrow>
        extractFromParts (p # ps) =
          (case PathUnescape (drop (idx + 2) (TrimPrefix (TrimSpace p) ''filename*='')) of
             Some decoded \<Rightarrow> decoded
           | None \<Rightarrow> drop (idx + 2) (TrimPrefix (TrimSpace p) ''filename*=''))"
    by (simp add: Let_def split: option.splits)
next
  show "\<not> HasPrefix (TrimSpace p) ''filename='' \<and> \<not> HasPrefix (TrimSpace p) ''filename*='' \<longrightarrow>
        extractFromParts (p # ps) = extractFromParts ps"
    by (simp add: Let_def)
qed

lemma TrimSpace_attachment: "TrimSpace ''attachment'' = ''attachment''"
  by (simp add: TrimSpace_def spaceRunes_def)

lemma TrimSpace_plain: "TrimSpace '' filename=\"a b.jpg\"'' = ''filename=\"a b.jpg\"''"
  by (simp add: TrimSpace_def spaceRunes_def)

lemma disposition_plain:
  "extractFilenameFromContentDisposition ''attachment; filename=\"a b.jpg\"'' = ''a b.jpg''"
  by (simp add: extractFilenameFromContentDisposition_def TrimSpace_attachment TrimSpace_plain
      HasPrefix_def TrimPrefix_def Trim_def)

lemma url_dotted: "dottedSegments ''/v1.0/photos/IMG_1.jpg/'' = [''v1.0'', ''IMG_1.jpg'']"
  by (simp add: dottedSegments_def)

lemma url_plain: "dottedSegments ''/photos/raw'' = []"
  by (simp add: dottedSegments_def)

theorem download_filename_priority_witness:
  "DownloadFile_filename exampleParse (GetResponse 200 ''attachment; filename=\"a b.jpg\"'')
       ''https://h/v1.0/photos/IMG_1.jpg/'' ''mine.png'' = Inr ''mine.png''
   \<and> DownloadFile_filename exampleParse (GetResponse 200 ''attachment; filename=\"a b.jpg\"'')
       ''https://h/v1.0/photos/IMG_1.jpg/'' '''' = Inr ''a b.jpg''
   \<and> DownloadFile_filename exampleParse (GetResponse 200 '''')
       ''https://h/v1.0/photos/IMG_1.jpg/'' '''' = Inr ''IMG_1.jpg''
   \<and> DownloadFile_filename exampleParse (GetResponse 200 '''')
       ''https://h/photos/raw'' '''' = Inr ''download''
   \<and> DownloadFile_filename exampleParse (GetResponse 200 '''') ''::'' '''' = Inr ''download''"
proof -
  let ?cd = "''attachment; filename=\"a b.jpg\"''"
  let ?u = "''https://h/v1.0/photos/IMG_1.jpg/''"
  have ok: "(200::int) \<le> 200 \<and> (200::int) < 300" by simp
  have u1: "extractFilenameFromURL exampleParse ?u = ''IMG_1.jpg''"
    using download_filename_priority [of _ exampleParse _ ?u] url_dotted
    by (simp add: exampleParse_def)
  have u2: "extractFilenameFromURL exampleParse ''https://h/photos/raw'' = ''''"
    using download_filename_priority [of _ exampleParse _ "''https://h/photos/raw''"] url_plain
    by (simp add: exampleParse_def)
  have u3: "extractFilenameFromURL exampleParse ''::'' = ''''"
    using download_filename_priority [of _ exampleParse _ "''::''"]
    by (simp add: exampleParse_def)
  have e: "extractFilenameFromContentDisposition '''' = ''''"
    using download_filename_priority by blast
  have 1: "DownloadFile_filename exampleParse (GetResponse 200 ?cd) ?u ''mine.png''
      = Inr ''mine.png''"
    using download_filename_priority [of 200 exampleParse ?cd ?u "''mine.png''"] ok by simp
  have 2: "DownloadFile_filename exampleParse (GetResponse 200 ?cd) ?u '''' = Inr ''a b.jpg''"
    using download_filename_priority [of 200 exampleParse ?cd ?u "''''"] ok disposition_plain
    by simp
  have 3: "DownloadFile_filename exampleParse (GetResponse 200 '''') ?u '''' = Inr ''IMG_1.jpg''"
    using download_filename_priority [of 200 exampleParse "''''" ?u "''''"] ok e u1 by simp
  have 4: "DownloadFile_filename exampleParse (GetResponse 200 '''') ''https://h/photos/raw'' ''''
      = Inr ''download''"
    using download_filename_priority [of 200 exampleParse "''''" "''https://h/photos/raw''" "''''"]
      ok e u2 by simp
  have 5: "DownloadFile_filename exampleParse (GetResponse 200 '''') ''::'' '''' = Inr ''download''"
    using download_filename_priority [of 200 exampleParse "''''" "''::''" "''''"] ok e u3 by simp
  from 1 2 3 4 5 show ?thesis by blast
qed

section \<open>Upload pipeline\<close>

subsection \<open>Events and the per-file state machine\<close>

text \<open>
  \<^verbatim>\<open>UploadStatus\<close> is a string type with seven named values; an event built without a
  status carries the empty string, here \<open>NoStatus\<close>.
\<close>

datatype UploadStatus =
    NoStatus | StatusHashing | StatusChecking | StatusUploading | StatusFinalizing
  | StatusCompleted | StatusSkipped | StatusFailed

datatype upload_error =
    ListingError       \<comment> \<open>the error of \<^verbatim>\<open>GetGooglePhotosSupportedFiles\<close>\<close>
  | HashError          \<comment> \<open>"hash error"\<close>
  | StatError          \<comment> \<open>"stat error"\<close>
  | UploadTokenError   \<comment> \<open>"upload token error"\<close>
  | UploadError        \<comment> \<open>"upload error"\<close>
  | CommitError        \<comment> \<open>"commit error"\<close>
  | NoMediaKey         \<comment> \<open>"no media key returned"\<close>

record UploadEvent =
  Path :: string
  Status :: UploadStatus
  MediaKey :: string
  DedupKey :: string
  Error :: "upload_error option"
  WorkerID :: int
  Total :: int

record UploadOptions =
  Workers :: int
  Recursive :: bool
  ForceUpload :: bool
  DeleteFromHost :: bool
  DisableFilter :: bool
  Caption :: string
  ShouldFavourite :: bool
  ShouldArchive :: bool
  OptQuality :: string
  OptUseQuota :: bool

text \<open>
  What the calls of \<^verbatim>\<open>uploadFile\<close> meet for one file: the digest (\<open>None\<close> when hashing
  fails), the media key of the hash lookup (its error is dropped by the source, which
  leaves the key empty), whether \<^verbatim>\<open>os.Stat\<close> succeeds, the upload token, whether the
  bytes go through, and the media key of the commit.
\<close>

record file_outcome =
  calcSHA1 :: "byte list option"
  findMediaKey :: string
  osStat :: bool
  getUploadToken :: "string option"
  uploadBody :: bool
  commitUpload :: "string option"

text \<open>
  \<^verbatim>\<open>uploadFile\<close>: the events it sends, in order. The calls after the commit (caption,
  favourite, archive, removal of the source file) send no event and fail no upload.
\<close>

definition send ::
  "string \<Rightarrow> int \<Rightarrow> UploadStatus \<Rightarrow> string \<Rightarrow> string \<Rightarrow> upload_error option \<Rightarrow> UploadEvent" where
  "send filePath workerID status mediaKey dedupKey err =
     \<lparr>Path = filePath, Status = status, MediaKey = mediaKey, DedupKey = dedupKey,
      Error = err, WorkerID = workerID, Total = 0\<rparr>"

definition uploadFile ::
  "UploadOptions \<Rightarrow> file_outcome \<Rightarrow> string \<Rightarrow> int \<Rightarrow> UploadEvent list" where
  "uploadFile opts out filePath workerID =
     send filePath workerID StatusHashing '''' '''' None #
     (case calcSHA1 out of
        None \<Rightarrow> [send filePath workerID StatusFailed '''' '''' (Some HashError)]
      | Some sha1Hash \<Rightarrow>
          (let dedupKey = SHA1ToDedupeKey sha1Hash in
           (if \<not> ForceUpload opts
            then [send filePath workerID StatusChecking '''' dedupKey None] else []) @
           (if \<not> ForceUpload opts \<and> findMediaKey out \<noteq> ''''
            then [send filePath workerID StatusSkipped (findMediaKey out) dedupKey None]
            else if \<not> osStat out
            then [send filePath workerID StatusFailed '''' dedupKey (Some StatError)]
            else
              send filePath workerID StatusUploading '''' dedupKey None #
              (case getUploadToken out of
                 None \<Rightarrow>
                   [send filePath workerID StatusFailed '''' dedupKey (Some UploadTokenError)]
               | Some tok \<Rightarrow>
                   if \<not> uploadBody out
                   then [send filePath workerID StatusFailed '''' dedupKey (Some UploadError)]
                   else
                     send filePath workerID StatusFinalizing '''' dedupKey None #
                     (case commitUpload out of
                        None \<Rightarrow>
                          [send filePath workerID StatusFailed '''' dedupKey (Some CommitError)]
                      | Some mediaKey \<Rightarrow>
                          if mediaKey = ''''
                          then [send filePath workerID StatusFailed '''' dedupKey
                                  (Some NoMediaKey)]
                          else [send filePath workerID StatusCompleted mediaKey dedupKey
                                  None])))))"

subsection \<open>The driver and its workers\<close>

text \<open>
  A batch is the driver goroutine of \<^verbatim>\<open>Upload\<close>, its workers, the buffered work channel
  and the event channel. The event channel is unbuffered, so the stream the caller
  receives is the sequence of completed sends: \<open>events\<close> is that sequence.

  The driver is at the \<^verbatim>\<open>select\<close> at the top of its loop over the files, at the test of
  \<^verbatim>\<open>first\<close>, at the push to the work channel, at \<^verbatim>\<open>wg.Wait()\<close> (the work channel is closed
  then), or it has returned (the event channel is closed then). A worker waits for a path
  from the work channel, holds a path and is at its \<^verbatim>\<open>select\<close>, is inside \<^verbatim>\<open>uploadFile\<close>
  with events still to send, or has exited.
\<close>

datatype driver_pc = AtSelect | AtFirst | AtPush | Waiting | Returned

datatype worker_pc = Idle | Picked string | Sending "UploadEvent list" | Exited

record batch =
  files :: "string list"
  pending :: "string list"
  first :: bool
  driver :: driver_pc
  workChan :: "string list"
  workChanClosed :: bool
  workers :: "worker_pc list"
  events :: "UploadEvent list"
  eventsClosed :: bool
  cancelled :: bool

definition totalEvent :: "nat \<Rightarrow> UploadEvent" where
  "totalEvent n =
     \<lparr>Path = '''', Status = NoStatus, MediaKey = '''', DedupKey = '''', Error = None,
      WorkerID = 0, Total = int n\<rparr>"

definition failedEvent :: UploadEvent where
  "failedEvent =
     \<lparr>Path = '''', Status = StatusFailed, MediaKey = '''', DedupKey = '''',
      Error = Some ListingError, WorkerID = 0, Total = 0\<rparr>"

text \<open>A batch that is over before any worker exists: the given events, then the close.\<close>

definition finished :: "string list \<Rightarrow> UploadEvent list \<Rightarrow> bool \<Rightarrow> batch" where
  "finished fs evs c =
     \<lparr>files = fs, pending = [], first = True, driver = Returned, workChan = [],
      workChanClosed = False, workers = [], events = evs, eventsClosed = True,
      cancelled = c\<rparr>"

text \<open>
  \<^verbatim>\<open>Upload\<close> up to the start of its loop. The listing is the result of
  \<^verbatim>\<open>GetGooglePhotosSupportedFiles\<close>: an error or the files after filtering. \<open>c\<close> says
  whether the context is cancelled already.
\<close>

definition Upload :: "upload_error + string list \<Rightarrow> UploadOptions \<Rightarrow> bool \<Rightarrow> batch" where
  "Upload listing opts c =
     (case listing of
        Inl err \<Rightarrow> finished [] [failedEvent] c
      | Inr fs \<Rightarrow>
          if length fs = 0 then finished fs [] c
          else
            (let workers1 = max 1 (Workers opts);
                 workers2 = min workers1 (int (length fs))
             in \<lparr>files = fs, pending = fs, first = True, driver = AtSelect, workChan = [],
                 workChanClosed = False, workers = replicate (nat workers2) Idle,
                 events = [], eventsClosed = False, cancelled = c\<rparr>))"

text \<open>
  One step of the driver. At the \<^verbatim>\<open>select\<close>: with no file left the loop is over and the
  work channel is closed; with the context cancelled the work channel is closed as well;
  else the loop body begins. The total is sent when \<^verbatim>\<open>first\<close> is set. After the push the
  loop is at its top again. The driver returns when every worker has exited.
\<close>

definition driverStep :: "batch \<Rightarrow> batch option" where
  "driverStep s =
     (case driver s of
        AtSelect \<Rightarrow>
          if pending s = [] then Some (s\<lparr>workChanClosed := True, driver := Waiting\<rparr>)
          else if cancelled s then Some (s\<lparr>workChanClosed := True, driver := Waiting\<rparr>)
          else Some (s\<lparr>driver := AtFirst\<rparr>)
      | AtFirst \<Rightarrow>
          if first s
          then Some (s\<lparr>events := events s @ [totalEvent (length (files s))],
                       first := False, driver := AtPush\<rparr>)
          else Some (s\<lparr>driver := AtPush\<rparr>)
      | AtPush \<Rightarrow>
          (case pending s of
             [] \<Rightarrow> None
           | path # rest \<Rightarrow>
               Some (s\<lparr>workChan := workChan s @ [path], pending := rest, driver := AtSelect\<rparr>))
      | Waiting \<Rightarrow>
          if list_all (\<lambda>w. w = Exited) (workers s)
          then Some (s\<lparr>eventsClosed := True, driver := Returned\<rparr>)
          else None
      | Returned \<Rightarrow> None)"

text \<open>
  One step of worker \<open>i\<close>. Waiting, it takes the next path, or exits when the work channel
  is closed and empty. Holding a path, it exits when the context is cancelled and enters
  \<^verbatim>\<open>uploadFile\<close> otherwise; \<open>out\<close> is what the calls for this file will meet. Inside
  \<^verbatim>\<open>uploadFile\<close> it sends its next event; with none left it waits again.
\<close>

definition workerStep :: "UploadOptions \<Rightarrow> nat \<Rightarrow> file_outcome \<Rightarrow> batch \<Rightarrow> batch option" where
  "workerStep opts i out s =
     (if i \<ge> length (workers s) then None
      else case workers s ! i of
        Idle \<Rightarrow>
          (case workChan s of
             path # rest \<Rightarrow>
               Some (s\<lparr>workChan := rest, workers := (workers s)[i := Picked path]\<rparr>)
           | [] \<Rightarrow>
               if workChanClosed s then Some (s\<lparr>workers := (workers s)[i := Exited]\<rparr>)
               else None)
      | Picked path \<Rightarrow>
          if cancelled s then Some (s\<lparr>workers := (workers s)[i := Exited]\<rparr>)
          else Some (s\<lparr>workers := (workers s)[i := Sending (uploadFile opts out path (int i))]\<rparr>)
      | Sending [] \<Rightarrow> Some (s\<lparr>workers := (workers s)[i := Idle]\<rparr>)
      | Sending (e # es) \<Rightarrow>
          Some (s\<lparr>events := events s @ [e], workers := (workers s)[i := Sending es]\<rparr>)
      | Exited \<Rightarrow> None)"

text \<open>
  A schedule is a list of actions: the caller cancels the context, the driver takes a
  step, or a worker takes a step. \<open>run\<close> follows a schedule; an action that is not possible
  in the state it meets makes the schedule impossible (\<open>None\<close>).
\<close>

datatype action = Cancel | DriverStep | WorkerStep nat file_outcome

definition act :: "UploadOptions \<Rightarrow> action \<Rightarrow> batch \<Rightarrow> batch option" where
  "act opts a s =
     (case a of
        Cancel \<Rightarrow> Some (s\<lparr>cancelled := True\<rparr>)
      | DriverStep \<Rightarrow> driverStep s
      | WorkerStep i out \<Rightarrow> workerStep opts i out s)"

fun run :: "UploadOptions \<Rightarrow> action list \<Rightarrow> batch \<Rightarrow> batch option" where
  "run opts [] s = Some s"
| "run opts (a # as) s = (case act opts a s of None \<Rightarrow> None | Some s' \<Rightarrow> run opts as s')"

text \<open>The events of a stream that carry a total, and those that carry a status.\<close>

definition totals :: "UploadEvent list \<Rightarrow> UploadEvent list" where
  "totals evs = filter (\<lambda>e. Total e > 0) evs"

definition statusEvent :: "UploadEvent \<Rightarrow> bool" where
  "statusEvent e = (Status e \<noteq> NoStatus)"

text \<open>Options and outcomes for examples.\<close>

definition defaultOptions :: "int \<Rightarrow> UploadOptions" where
  "defaultOptions w =
     \<lparr>Workers = w, Recursive = False, ForceUpload = False, DeleteFromHost = False,
      DisableFilter = False, Caption = '''', ShouldFavourite = False, ShouldArchive = False,
      OptQuality = '''', OptUseQuota = False\<rparr>"

definition knownFile :: file_outcome where
  "knownFile =
     \<lparr>calcSHA1 = Some zeroDigest, findMediaKey = ''AF1QipXYZ'', osStat = True,
      getUploadToken = None, uploadBody = False, commitUpload = None\<rparr>"

subsection \<open>Invariants of a batch\<close>

text \<open>An event of \<^verbatim>\<open>uploadFile\<close> carries a status and no total.\<close>

definition okEvent :: "UploadEvent \<Rightarrow> bool" where
  "okEvent e = (Total e = 0 \<and> statusEvent e)"

lemma uploadFile_events: "list_all okEvent (uploadFile opts out filePath workerID)"
  by (auto simp: uploadFile_def send_def statusEvent_def okEvent_def Let_def
      split: option.splits if_splits)

text \<open>
  While \<^verbatim>\<open>first\<close> is set nothing has been sent or pushed, no worker holds a path, and the
  driver can only have left its loop through a cancelled context. Once \<^verbatim>\<open>first\<close> is
  cleared the stream starts with the total, and everything after it, sent or still to be
  sent, is a status event without a total.
\<close>

definition batchInv :: "nat \<Rightarrow> batch \<Rightarrow> bool" where
  "batchInv n s \<longleftrightarrow>
     length (files s) = n
     \<and> (first s \<longrightarrow>
          events s = [] \<and> workChan s = [] \<and> driver s \<noteq> AtPush \<and> pending s \<noteq> []
          \<and> (driver s = Waiting \<or> driver s = Returned \<longrightarrow> cancelled s)
          \<and> (\<forall>w \<in> set (workers s). w = Idle \<or> w = Exited))
     \<and> (\<not> first s \<longrightarrow> (\<exists>rest. events s = totalEvent n # rest \<and> list_all okEvent rest))
     \<and> (\<forall>w \<in> set (workers s). \<forall>es. w = Sending es \<longrightarrow> list_all okEvent es)"

lemma set_update_cases: "w \<in> set (ws[i := x]) \<Longrightarrow> w = x \<or> w \<in> set ws"
  using set_update_subset_insert [of ws i x] by auto

lemma inv_Upload: "fs \<noteq> [] \<Longrightarrow> batchInv (length fs) (Upload (Inr fs) opts c)"
  by (simp add: batchInv_def Upload_def Let_def)

lemma inv_cancel: "batchInv n s \<Longrightarrow> batchInv n (s\<lparr>cancelled := True\<rparr>)"
  by (simp add: batchInv_def)

lemma inv_driver_close:
  assumes "batchInv n s" and "first s \<longrightarrow> cancelled s"
  shows "batchInv n (s\<lparr>workChanClosed := True, driver := Waiting\<rparr>)"
  using assms unfolding batchInv_def by auto

lemma inv_driver_enter:
  assumes "batchInv n s"
  shows "batchInv n (s\<lparr>driver := AtFirst\<rparr>)"
  using assms unfolding batchInv_def by auto

lemma inv_driver_total:
  assumes "batchInv n s" and "first s"
  shows "batchInv n (s\<lparr>events := events s @ [totalEvent (length (files s))],
           first := False, driver := AtPush\<rparr>)"
  using assms unfolding batchInv_def by auto

lemma inv_driver_skip:
  assumes "batchInv n s" and "\<not> first s"
  shows "batchInv n (s\<lparr>driver := AtPush\<rparr>)"
  using assms unfolding batchInv_def by auto

lemma inv_driver_push:
  assumes "batchInv n s" and "driver s = AtPush"
  shows "batchInv n (s\<lparr>workChan := workChan s @ [path], pending := rest, driver := AtSelect\<rparr>)"
  using assms unfolding batchInv_def by auto

lemma inv_driver_return:
  assumes "batchInv n s" and "driver s = Waiting"
  shows "batchInv n (s\<lparr>eventsClosed := True, driver := Returned\<rparr>)"
  using assms unfolding batchInv_def by auto

lemma inv_driverStep:
  assumes inv: "batchInv n s" and step: "driverStep s = Some s'"
  shows "batchInv n s'"
proof (cases "driver s")
  case AtSelect
  from inv have p: "first s \<longrightarrow> pending s \<noteq> []" by (simp add: batchInv_def)
  show ?thesis
  proof (cases "pending s = [] \<or> cancelled s")
    case True
    with AtSelect step have s': "s' = s\<lparr>workChanClosed := True, driver := Waiting\<rparr>"
      by (auto simp: driverStep_def split: if_splits)
    from True p have "first s \<longrightarrow> cancelled s" by blast
    with inv show ?thesis unfolding s' by (rule inv_driver_close)
  next
    case False
    with AtSelect step have s': "s' = s\<lparr>driver := AtFirst\<rparr>"
      by (auto simp: driverStep_def split: if_splits)
    from inv show ?thesis unfolding s' by (rule inv_driver_enter)
  qed
next
  case AtFirst
  show ?thesis
  proof (cases "first s")
    case True
    with AtFirst step have s': "s' = s\<lparr>events := events s @ [totalEvent (length (files s))],
           first := False, driver := AtPush\<rparr>"
      by (simp add: driverStep_def)
    from inv True show ?thesis unfolding s' by (rule inv_driver_total)
  next
    case False
    with AtFirst step have s': "s' = s\<lparr>driver := AtPush\<rparr>"
      by (simp add: driverStep_def)
    from inv False show ?thesis unfolding s' by (rule inv_driver_skip)
  qed
next
  case AtPush
  show ?thesis
  proof (cases "pending s")
    case Nil
    with AtPush step show ?thesis by (simp add: driverStep_def)
  next
    case (Cons path rest)
    with AtPush step have s':
      "s' = s\<lparr>workChan := workChan s @ [path], pending := rest, driver := AtSelect\<rparr>"
      by (simp add: driverStep_def)
    from inv AtPush show ?thesis unfolding s' by (rule inv_driver_push)
  qed
next
  case Waiting
  with step have s': "s' = s\<lparr>eventsClosed := True, driver := Returned\<rparr>"
    by (simp add: driverStep_def split: if_splits)
  from inv Waiting show ?thesis unfolding s' by (rule inv_driver_return)
next
  case Returned
  with step show ?thesis by (simp add: driverStep_def)
qed

lemma inv_worker_rest:
  assumes "batchInv n s" and "x = Idle \<or> x = Exited"
  shows "batchInv n (s\<lparr>workers := (workers s)[i := x]\<rparr>)"
  using assms unfolding batchInv_def
  by (auto dest!: set_update_cases)

lemma inv_worker_pick:
  assumes "batchInv n s" and "workChan s = path # rest"
  shows "batchInv n (s\<lparr>workChan := rest, workers := (workers s)[i := Picked path]\<rparr>)"
  using assms unfolding batchInv_def
  by (auto dest!: set_update_cases)

lemma inv_worker_enter:
  assumes "batchInv n s" and "\<not> first s" and "list_all okEvent es"
  shows "batchInv n (s\<lparr>workers := (workers s)[i := Sending es]\<rparr>)"
  using assms unfolding batchInv_def
  by (auto dest!: set_update_cases)

lemma inv_worker_send:
  assumes "batchInv n s" and "\<not> first s" and "okEvent e" and "list_all okEvent es"
  shows "batchInv n (s\<lparr>events := events s @ [e], workers := (workers s)[i := Sending es]\<rparr>)"
  using assms unfolding batchInv_def
  by (auto dest!: set_update_cases)

lemma inv_workerStep:
  assumes inv: "batchInv n s" and step: "workerStep opts i out s = Some s'"
  shows "batchInv n s'"
proof -
  from step have i: "i < length (workers s)"
    by (auto simp: workerStep_def split: if_splits)
  then have mem: "workers s ! i \<in> set (workers s)" by simp
  show ?thesis
  proof (cases "workers s ! i")
    case Idle
    show ?thesis
    proof (cases "workChan s")
      case Nil
      with Idle step i have s': "s' = s\<lparr>workers := (workers s)[i := Exited]\<rparr>"
        by (auto simp: workerStep_def split: if_splits)
      from inv show ?thesis unfolding s' by (rule inv_worker_rest) simp
    next
      case (Cons path rest)
      with Idle step i have s':
        "s' = s\<lparr>workChan := rest, workers := (workers s)[i := Picked path]\<rparr>"
        by (auto simp: workerStep_def)
      from inv Cons show ?thesis unfolding s' by (rule inv_worker_pick)
    qed
  next
    case (Picked path)
    from inv mem Picked have nf: "\<not> first s" by (auto simp: batchInv_def)
    show ?thesis
    proof (cases "cancelled s")
      case True
      with Picked step i have s': "s' = s\<lparr>workers := (workers s)[i := Exited]\<rparr>"
        by (auto simp: workerStep_def)
      from inv show ?thesis unfolding s' by (rule inv_worker_rest) simp
    next
      case False
      with Picked step i have s':
        "s' = s\<lparr>workers := (workers s)[i := Sending (uploadFile opts out path (int i))]\<rparr>"
        by (auto simp: workerStep_def)
      from inv nf uploadFile_events show ?thesis unfolding s' by (rule inv_worker_enter)
    qed
  next
    case (Sending es)
    from inv mem Sending have nf: "\<not> first s" by (auto simp: batchInv_def)
    from inv mem Sending have es: "list_all okEvent es" by (auto simp: batchInv_def)
    show ?thesis
    proof (cases es)
      case Nil
      with Sending step i have s': "s' = s\<lparr>workers := (workers s)[i := Idle]\<rparr>"
        by (auto simp: workerStep_def)
      from inv show ?thesis unfolding s' by (rule inv_worker_rest) simp
    next
      case (Cons e es')
      with Sending step i have s':
        "s' = s\<lparr>events := events s @ [e], workers := (workers s)[i := Sending es']\<rparr>"
        by (auto simp: workerStep_def)
      from es Cons have "okEvent e" "list_all okEvent es'" by simp_all
      with inv nf show ?thesis unfolding s' by (rule inv_worker_send)
    qed
  next
    case Exited
    with step i show ?thesis by (simp add: workerStep_def)
  qed
qed

lemma inv_act:
  assumes inv: "batchInv n s" and step: "act opts a s = Some s'"
  shows "batchInv n s'"
proof (cases a)
  case Cancel
  with step have "s' = s\<lparr>cancelled := True\<rparr>" by (simp add: act_def)
  with inv show ?thesis by (simp add: inv_cancel)
next
  case DriverStep
  with step have "driverStep s = Some s'" by (simp add: act_def)
  with inv show ?thesis by (rule inv_driverStep)
next
  case (WorkerStep i out)
  with step have "workerStep opts i out s = Some s'" by (simp add: act_def)
  with inv show ?thesis by (rule inv_workerStep)
qed

lemma inv_run: "batchInv n s \<Longrightarrow> run opts acts s = Some s' \<Longrightarrow> batchInv n s'"
proof (induction acts arbitrary: s)
  case Nil
  then show ?case by simp
next
  case (Cons a acts)
  from Cons.prems(2) obtain s1 where s1: "act opts a s = Some s1" "run opts acts s1 = Some s'"
    by (auto split: option.splits)
  from Cons.prems(1) s1(1) have "batchInv n s1" by (rule inv_act)
  then show ?case using s1(2) by (rule Cons.IH)
qed

text \<open>What the invariant says about the stream.\<close>

lemma totals_status_only: "list_all okEvent rest \<Longrightarrow> totals rest = []"
  by (induction rest) (auto simp: totals_def okEvent_def)

lemma status_of_ok: "list_all okEvent rest \<Longrightarrow> list_all statusEvent rest"
  by (induction rest) (auto simp: okEvent_def)

lemma totalEvent_not_status: "\<not> statusEvent (totalEvent n)"
  by (simp add: statusEvent_def totalEvent_def)

lemma stream_shape:
  assumes "batchInv n s" and "0 < n"
  shows "(first s \<longrightarrow> events s = [])
       \<and> (\<not> first s \<longrightarrow>
            (\<exists>rest. events s = totalEvent n # rest \<and> totals rest = []
               \<and> list_all statusEvent rest)
            \<and> totals (events s) = [totalEvent n])"
proof (cases "first s")
  case True
  with assms show ?thesis by (simp add: batchInv_def)
next
  case False
  with assms obtain rest where rest: "events s = totalEvent n # rest" "list_all okEvent rest"
    by (auto simp: batchInv_def)
  then have t: "totals rest = []" and st: "list_all statusEvent rest"
    by (simp_all add: totals_status_only status_of_ok)
  have "totals (events s) = [totalEvent n]"
    using rest(1) t assms(2) by (simp add: totals_def totalEvent_def)
  with False rest t st show ?thesis by auto
qed

lemma complete_uncancelled:
  assumes "batchInv n s" and "driver s = Returned" and "\<not> cancelled s"
  shows "\<not> first s"
  using assms by (auto simp: batchInv_def)

text \<open>The workers are those started at the beginning; a finished batch stays as it is.\<close>

lemma workers_driverStep: "driverStep s = Some s' \<Longrightarrow> length (workers s') = length (workers s)"
  by (auto simp: driverStep_def split: driver_pc.splits if_splits list.splits)

lemma workers_workerStep:
  "workerStep opts i out s = Some s' \<Longrightarrow> length (workers s') = length (workers s)"
  by (auto simp: workerStep_def split: worker_pc.splits if_splits list.splits)

lemma workers_run: "run opts acts s = Some s' \<Longrightarrow> length (workers s') = length (workers s)"
proof (induction acts arbitrary: s)
  case Nil
  then show ?case by simp
next
  case (Cons a acts)
  from Cons.prems obtain s1 where s1: "act opts a s = Some s1" "run opts acts s1 = Some s'"
    by (auto split: option.splits)
  from s1(1) have "length (workers s1) = length (workers s)"
    by (cases a) (auto simp: act_def dest: workers_driverStep workers_workerStep)
  with Cons.IH [OF s1(2)] show ?case by simp
qed

lemma returned_act:
  assumes "driver s = Returned" and "workers s = []" and "act opts a s = Some s1"
  shows "driver s1 = Returned \<and> workers s1 = [] \<and> events s1 = events s
       \<and> eventsClosed s1 = eventsClosed s"
proof (cases a)
  case Cancel
  with assms show ?thesis by (auto simp: act_def)
next
  case DriverStep
  with assms show ?thesis by (simp add: act_def driverStep_def)
next
  case (WorkerStep i out)
  with assms show ?thesis by (simp add: act_def workerStep_def)
qed

lemma returned_run:
  "driver s = Returned \<Longrightarrow> workers s = [] \<Longrightarrow> run opts acts s = Some s' \<Longrightarrow>
     events s' = events s \<and> eventsClosed s' = eventsClosed s \<and> workers s' = []"
proof (induction acts arbitrary: s)
  case Nil
  then show ?case by auto
next
  case (Cons a acts)
  from Cons.prems(3) obtain s1 where s1: "act opts a s = Some s1" "run opts acts s1 = Some s'"
    by (auto split: option.splits)
  from returned_act [OF Cons.prems(1) Cons.prems(2) s1(1)]
  have 1: "driver s1 = Returned" "workers s1 = []" "events s1 = events s"
    "eventsClosed s1 = eventsClosed s" by simp_all
  from Cons.IH [OF 1(1) 1(2) s1(2)] 1 show ?case by simp
qed

lemma finished_run:
  "run opts acts (finished fs evs c) = Some s' \<Longrightarrow>
     events s' = evs \<and> eventsClosed s' \<and> workers s' = []"
  using returned_run [of "finished fs evs c" opts acts s'] by (simp add: finished_def)

subsection \<open>The claims about a batch\<close>

text \<open>
  C5. With no file after filtering the stream is closed at once: it has no event, there is
  no worker, and nothing can happen afterwards. With \<open>F > 0\<close> files and \<open>W\<close> requested
  workers, exactly \<open>min (max 1 W) F\<close> workers are started, so one worker for \<open>W \<le> 0\<close>, and
  their number never changes during the batch.
\<close>

theorem worker_count:
  "(length fs = 0 \<longrightarrow>
      events (Upload (Inr fs) opts c) = [] \<and> eventsClosed (Upload (Inr fs) opts c)
      \<and> workers (Upload (Inr fs) opts c) = []
      \<and> (\<forall>acts s. run opts acts (Upload (Inr fs) opts c) = Some s \<longrightarrow>
            events s = [] \<and> eventsClosed s \<and> workers s = []))
   \<and> (length fs \<noteq> 0 \<longrightarrow>
      int (length (workers (Upload (Inr fs) opts c))) = min (max 1 (Workers opts)) (int (length fs))
      \<and> (Workers opts \<le> 0 \<longrightarrow> length (workers (Upload (Inr fs) opts c)) = 1)
      \<and> list_all (\<lambda>w. w = Idle) (workers (Upload (Inr fs) opts c))
      \<and> \<not> eventsClosed (Upload (Inr fs) opts c)
      \<and> (\<forall>acts s. run opts acts (Upload (Inr fs) opts c) = Some s \<longrightarrow>
            length (workers s) = length (workers (Upload (Inr fs) opts c))))"
proof (intro conjI impI)
  assume e: "length fs = 0"
  then have u: "Upload (Inr fs) opts c = finished fs [] c" by (simp add: Upload_def)
  show "events (Upload (Inr fs) opts c) = []" "eventsClosed (Upload (Inr fs) opts c)"
    "workers (Upload (Inr fs) opts c) = []"
    by (simp_all add: u finished_def)
  show "\<forall>acts s. run opts acts (Upload (Inr fs) opts c) = Some s \<longrightarrow>
          events s = [] \<and> eventsClosed s \<and> workers s = []"
    unfolding u using finished_run by blast
next
  assume n: "length fs \<noteq> 0"
  then have pos: "0 < int (length fs)" by simp
  have w: "workers (Upload (Inr fs) opts c)
      = replicate (nat (min (max 1 (Workers opts)) (int (length fs)))) Idle"
    using n by (simp add: Upload_def Let_def)
  show "int (length (workers (Upload (Inr fs) opts c)))
      = min (max 1 (Workers opts)) (int (length fs))"
    using pos by (simp add: w)
  show "list_all (\<lambda>w. w = Idle) (workers (Upload (Inr fs) opts c))"
    by (simp add: w list_all_iff)
  show "\<not> eventsClosed (Upload (Inr fs) opts c)"
    using n by (simp add: Upload_def Let_def)
  show "\<forall>acts s. run opts acts (Upload (Inr fs) opts c) = Some s \<longrightarrow>
          length (workers s) = length (workers (Upload (Inr fs) opts c))"
    using workers_run by blast
  assume "Workers opts \<le> 0"
  moreover from n have "1 \<le> int (length fs)" by (cases fs) simp_all
  ultimately have "min (max 1 (Workers opts)) (int (length fs)) = 1" by linarith
  then show "length (workers (Upload (Inr fs) opts c)) = 1" by (simp add: w)
qed

theorem worker_count_witness:
  "workers (Upload (Inr [''a.jpg'', ''b.jpg'', ''c.jpg'']) (defaultOptions 0) False) = [Idle]
   \<and> workers (Upload (Inr [''a.jpg'', ''b.jpg'', ''c.jpg'']) (defaultOptions (- 5)) False) = [Idle]
   \<and> workers (Upload (Inr [''a.jpg'', ''b.jpg'', ''c.jpg'']) (defaultOptions 2) False)
       = [Idle, Idle]
   \<and> workers (Upload (Inr [''a.jpg'', ''b.jpg'', ''c.jpg'']) (defaultOptions 8) False)
       = [Idle, Idle, Idle]
   \<and> events (Upload (Inr []) (defaultOptions 8) False) = []
   \<and> eventsClosed (Upload (Inr []) (defaultOptions 8) False)
   \<and> run (defaultOptions 8) [DriverStep] (Upload (Inr []) (defaultOptions 8) False) = None"
proof -
  let ?fs = "[''a.jpg'', ''b.jpg'', ''c.jpg'']"
  have shape: "ws = replicate (length ws) Idle" if "list_all (\<lambda>w. w = Idle) ws" for ws
    using that by (induction ws) simp_all
  have w: "Workers (defaultOptions k) = k" for k by (simp add: defaultOptions_def)
  have 1: "workers (Upload (Inr ?fs) (defaultOptions 0) False) = [Idle]"
    using worker_count [of ?fs "defaultOptions 0" False]
      shape [of "workers (Upload (Inr ?fs) (defaultOptions 0) False)"]
    by (simp add: w)
  have 2: "workers (Upload (Inr ?fs) (defaultOptions (- 5)) False) = [Idle]"
    using worker_count [of ?fs "defaultOptions (- 5)" False]
      shape [of "workers (Upload (Inr ?fs) (defaultOptions (- 5)) False)"]
    by (simp add: w)
  have 3: "workers (Upload (Inr ?fs) (defaultOptions 2) False) = [Idle, Idle]"
    using worker_count [of ?fs "defaultOptions 2" False]
      shape [of "workers (Upload (Inr ?fs) (defaultOptions 2) False)"]
    by (simp add: w numeral_2_eq_2)
  have 4: "workers (Upload (Inr ?fs) (defaultOptions 8) False) = [Idle, Idle, Idle]"
    using worker_count [of ?fs "defaultOptions 8" False]
      shape [of "workers (Upload (Inr ?fs) (defaultOptions 8) False)"]
    by (simp add: w numeral_3_eq_3)
  have 5: "events (Upload (Inr []) (defaultOptions 8) False) = []
      \<and> eventsClosed (Upload (Inr []) (defaultOptions 8) False)"
    using worker_count [of "[]" "defaultOptions 8" False] by simp
  have 6: "run (defaultOptions 8) [DriverStep] (Upload (Inr []) (defaultOptions 8) False) = None"
    by (simp add: Upload_def finished_def act_def driverStep_def)
  from 1 2 3 4 5 6 show ?thesis by blast
qed

text \<open>
  C1 as the claim states it fails for a batch without files: the stream is closed and
  holds no event, so none with a total.
\<close>

theorem total_event_empty_batch_counterexample:
  "eventsClosed (Upload (Inr []) (defaultOptions 4) False)
   \<and> events (Upload (Inr []) (defaultOptions 4) False) = []
   \<and> length (totals (events (Upload (Inr []) (defaultOptions 4) False))) \<noteq> 1"
  by (simp add: Upload_def finished_def totals_def)

text \<open>
  A batch whose context is cancelled when the driver makes its first check never starts:
  the driver closes the work channel at once and \<^verbatim>\<open>first\<close> stays set.
\<close>

definition neverStarted :: "batch \<Rightarrow> bool" where
  "neverStarted s \<longleftrightarrow> cancelled s \<and> first s \<and> driver s \<noteq> AtFirst \<and> driver s \<noteq> AtPush"

lemma workerStep_frame:
  "workerStep opts i out s = Some s' \<Longrightarrow>
     cancelled s' = cancelled s \<and> first s' = first s \<and> driver s' = driver s"
  by (auto simp: workerStep_def split: worker_pc.splits if_splits list.splits)

lemma neverStarted_driverStep:
  assumes "neverStarted s" and "driverStep s = Some s'"
  shows "neverStarted s'"
proof (cases "driver s")
  case AtSelect
  with assms show ?thesis by (auto simp: neverStarted_def driverStep_def split: if_splits)
next
  case AtFirst
  with assms show ?thesis by (simp add: neverStarted_def)
next
  case AtPush
  with assms show ?thesis by (simp add: neverStarted_def)
next
  case Waiting
  with assms show ?thesis by (auto simp: neverStarted_def driverStep_def split: if_splits)
next
  case Returned
  with assms show ?thesis by (simp add: driverStep_def)
qed

lemma neverStarted_act:
  assumes ns: "neverStarted s" and step: "act opts a s = Some s'"
  shows "neverStarted s'"
proof (cases a)
  case Cancel
  with step have "s' = s\<lparr>cancelled := True\<rparr>" by (simp add: act_def)
  with ns show ?thesis by (simp add: neverStarted_def)
next
  case DriverStep
  with step have "driverStep s = Some s'" by (simp add: act_def)
  with ns show ?thesis by (rule neverStarted_driverStep)
next
  case (WorkerStep i out)
  with step have "workerStep opts i out s = Some s'" by (simp add: act_def)
  then have "cancelled s' = cancelled s \<and> first s' = first s \<and> driver s' = driver s"
    by (rule workerStep_frame)
  with ns show ?thesis by (simp add: neverStarted_def)
qed

lemma neverStarted_run: "neverStarted s \<Longrightarrow> run opts acts s = Some s' \<Longrightarrow> neverStarted s'"
proof (induction acts arbitrary: s)
  case Nil
  then show ?case by simp
next
  case (Cons a acts)
  from Cons.prems(2) obtain s1 where s1: "act opts a s = Some s1" "run opts acts s1 = Some s'"
    by (auto split: option.splits)
  from Cons.prems(1) s1(1) have "neverStarted s1" by (rule neverStarted_act)
  then show ?case using s1(2) by (rule Cons.IH)
qed

lemma neverStarted_Upload: "fs \<noteq> [] \<Longrightarrow> neverStarted (Upload (Inr fs) opts True)"
  by (simp add: neverStarted_def Upload_def Let_def)

text \<open>Once \<^verbatim>\<open>first\<close> is cleared it stays cleared.\<close>

lemma cleared_driverStep: "driverStep s = Some s' \<Longrightarrow> \<not> first s \<Longrightarrow> \<not> first s'"
  by (auto simp: driverStep_def split: driver_pc.splits if_splits list.splits)

lemma cleared_act:
  assumes step: "act opts a s = Some s'" and nf: "\<not> first s"
  shows "\<not> first s'"
proof (cases a)
  case Cancel
  with step have "s' = s\<lparr>cancelled := True\<rparr>" by (simp add: act_def)
  with nf show ?thesis by simp
next
  case DriverStep
  with step have "driverStep s = Some s'" by (simp add: act_def)
  then show ?thesis using nf by (rule cleared_driverStep)
next
  case (WorkerStep i out)
  with step have "workerStep opts i out s = Some s'" by (simp add: act_def)
  then have "first s' = first s" using workerStep_frame by blast
  with nf show ?thesis by simp
qed

lemma cleared_run: "run opts acts s = Some s' \<Longrightarrow> \<not> first s \<Longrightarrow> \<not> first s'"
proof (induction acts arbitrary: s)
  case Nil
  then show ?case by simp
next
  case (Cons a acts)
  from Cons.prems(1) obtain s1 where s1: "act opts a s = Some s1" "run opts acts s1 = Some s'"
    by (auto split: option.splits)
  from s1(1) Cons.prems(2) have "\<not> first s1" by (rule cleared_act)
  with s1(2) show ?case by (rule Cons.IH)
qed

text \<open>
  Past the check, at the test of \<^verbatim>\<open>first\<close>, the driver's next step is possible whatever
  has happened to the context, and it leaves the stream with exactly one total.
\<close>

lemma first_test_sends_total:
  assumes inv: "batchInv n s" and pos: "0 < n" and at: "driver s = AtFirst"
  shows "\<exists>s'. act opts DriverStep s = Some s' \<and> \<not> first s' \<and> driver s' = AtPush
           \<and> length (totals (events s')) = 1"
proof -
  define s' where "s' =
    (if first s
     then s\<lparr>events := events s @ [totalEvent (length (files s))], first := False, driver := AtPush\<rparr>
     else s\<lparr>driver := AtPush\<rparr>)"
  from at have step: "driverStep s = Some s'" by (simp add: driverStep_def s'_def)
  with inv have inv': "batchInv n s'" by (rule inv_driverStep)
  have nf: "\<not> first s'" and d: "driver s' = AtPush" by (simp_all add: s'_def)
  from stream_shape [OF inv' pos] nf have "totals (events s') = [totalEvent n]" by blast
  then have "length (totals (events s')) = 1" by simp
  with step nf d show ?thesis by (auto simp: act_def)
qed

text \<open>
  C1, amended. At every moment of a batch with \<open>F > 0\<close> files the stream is empty or
  starts with the event that carries the total \<open>F\<close> and no status, followed by status
  events without a total only. So there is at most one event with a total, its total is
  \<open>F\<close>, it comes before every status event, and it is there whenever a status event is
  there. The driver sends it in its first pass through the loop, after the cancellation
  check and without another check: once the driver is past the check, its next step is
  possible even when the context has been cancelled meanwhile, and it leaves exactly one
  total in the stream; the stream is empty exactly as long as \<^verbatim>\<open>first\<close> is set, and
  once it is not empty it holds exactly one total in every later state. A batch that has run to its end with the context never
  cancelled has exactly one total. A batch whose context is cancelled already at the
  driver's first check never has an event. A batch without files has no events, and a
  batch whose listing failed has the one failed event and no total.
\<close>

theorem total_event_first:
  assumes "run opts acts (Upload listing opts c) = Some s"
  shows "case listing of
      Inl err \<Rightarrow> events s = [failedEvent] \<and> totals (events s) = []
    | Inr fs \<Rightarrow>
        (fs = [] \<longrightarrow> events s = [])
        \<and> (fs \<noteq> [] \<longrightarrow>
            (events s = []
               \<or> (\<exists>rest. events s = totalEvent (length fs) # rest \<and> totals rest = []
                     \<and> list_all statusEvent rest))
            \<and> length (totals (events s)) \<le> 1
            \<and> (\<forall>e \<in> set (totals (events s)). Total e = int (length fs))
            \<and> (\<forall>i j. i < length (events s) \<and> j < length (events s)
                  \<and> Total (events s ! i) > 0 \<and> statusEvent (events s ! j) \<longrightarrow> i < j)
            \<and> ((\<exists>e \<in> set (events s). statusEvent e) \<longrightarrow> length (totals (events s)) = 1)
            \<and> (driver s = Returned \<and> \<not> cancelled s \<longrightarrow> length (totals (events s)) = 1)
            \<and> (first s \<longleftrightarrow> events s = [])
            \<and> (\<not> first s \<longrightarrow> length (totals (events s)) = 1)
            \<and> (driver s = AtFirst \<longrightarrow>
                  (\<exists>s'. act opts DriverStep s = Some s' \<and> \<not> first s' \<and> driver s' = AtPush
                     \<and> length (totals (events s')) = 1))
            \<and> (driver s = AtPush \<longrightarrow> length (totals (events s)) = 1)
            \<and> (c \<longrightarrow> events s = [])
            \<and> (\<forall>more s2. run opts more s = Some s2 \<and> events s \<noteq> [] \<longrightarrow>
                  length (totals (events s2)) = 1))"
proof (cases listing)
  case (Inl err)
  with assms have "run opts acts (finished [] [failedEvent] c) = Some s"
    by (simp add: Upload_def)
  then have "events s = [failedEvent]" using finished_run by blast
  with Inl show ?thesis by (simp add: totals_def failedEvent_def)
next
  case (Inr fs)
  show ?thesis
  proof (cases "fs = []")
    case True
    with Inr assms have "run opts acts (finished fs [] c) = Some s"
      by (simp add: Upload_def)
    then have "events s = []" using finished_run by blast
    with Inr True show ?thesis by simp
  next
    case False
    then have pos: "0 < length fs" by simp
    from False have "batchInv (length fs) (Upload (Inr fs) opts c)" by (rule inv_Upload)
    with assms Inr have inv: "batchInv (length fs) s" using inv_run by blast
    note shape = stream_shape [OF inv pos]
    have A: "events s = []
               \<or> (\<exists>rest. events s = totalEvent (length fs) # rest \<and> totals rest = []
                     \<and> list_all statusEvent rest)"
      using shape by blast
    have G: "first s \<longleftrightarrow> events s = []"
      using shape by (cases "first s") auto
    have H: "\<not> first s \<longrightarrow> length (totals (events s)) = 1"
      using shape by auto
    have B: "length (totals (events s)) \<le> 1"
    proof (cases "first s")
      case True
      with G show ?thesis by (simp add: totals_def)
    next
      case False
      with H show ?thesis by simp
    qed
    have C: "\<forall>e \<in> set (totals (events s)). Total e = int (length fs)"
    proof (cases "first s")
      case True
      with G show ?thesis by (simp add: totals_def)
    next
      case False
      with shape have "totals (events s) = [totalEvent (length fs)]" by blast
      then show ?thesis by (simp add: totalEvent_def)
    qed
    have D: "\<forall>i j. i < length (events s) \<and> j < length (events s)
                  \<and> Total (events s ! i) > 0 \<and> statusEvent (events s ! j) \<longrightarrow> i < j"
    proof (intro allI impI)
      fix i j
      assume ij: "i < length (events s) \<and> j < length (events s)
                  \<and> Total (events s ! i) > 0 \<and> statusEvent (events s ! j)"
      then have "events s \<noteq> []" by auto
      with A obtain rest where rest: "events s = totalEvent (length fs) # rest"
        "totals rest = []" by blast
      have "i = 0"
      proof (rule ccontr)
        assume "i \<noteq> 0"
        then obtain k where k: "i = Suc k" by (cases i) auto
        with ij rest(1) have "k < length rest" "Total (rest ! k) > 0" by auto
        then have "rest ! k \<in> set (totals rest)" by (simp add: totals_def)
        with rest(2) show False by simp
      qed
      moreover have "j \<noteq> 0"
        using ij rest(1) totalEvent_not_status by (cases j) auto
      ultimately show "i < j" by simp
    qed
    have E: "(\<exists>e \<in> set (events s). statusEvent e) \<longrightarrow> length (totals (events s)) = 1"
    proof
      assume "\<exists>e \<in> set (events s). statusEvent e"
      then have "events s \<noteq> []" by auto
      with G H show "length (totals (events s)) = 1" by blast
    qed
    have F: "driver s = Returned \<and> \<not> cancelled s \<longrightarrow> length (totals (events s)) = 1"
    proof
      assume "driver s = Returned \<and> \<not> cancelled s"
      with inv have "\<not> first s" using complete_uncancelled by blast
      with H show "length (totals (events s)) = 1" by blast
    qed
    have I: "driver s = AtFirst \<longrightarrow>
                  (\<exists>s'. act opts DriverStep s = Some s' \<and> \<not> first s' \<and> driver s' = AtPush
                     \<and> length (totals (events s')) = 1)"
      using first_test_sends_total [OF inv pos] by blast
    have J: "driver s = AtPush \<longrightarrow> length (totals (events s)) = 1"
    proof
      assume "driver s = AtPush"
      with inv have "\<not> first s" by (auto simp: batchInv_def)
      with H show "length (totals (events s)) = 1" by blast
    qed
    have K: "c \<longrightarrow> events s = []"
    proof
      assume c
      with False have "neverStarted (Upload (Inr fs) opts c)" by (simp add: neverStarted_Upload)
      with assms Inr have "neverStarted s" using neverStarted_run by blast
      then have "first s" by (simp add: neverStarted_def)
      with G show "events s = []" by blast
    qed
    have L: "\<forall>more s2. run opts more s = Some s2 \<and> events s \<noteq> [] \<longrightarrow>
                  length (totals (events s2)) = 1"
    proof (intro allI impI)
      fix more s2
      assume a: "run opts more s = Some s2 \<and> events s \<noteq> []"
      with G have "\<not> first s" by blast
      with a have nf2: "\<not> first s2" using cleared_run by blast
      from inv a have "batchInv (length fs) s2" using inv_run by blast
      from stream_shape [OF this pos] nf2 have "totals (events s2) = [totalEvent (length fs)]"
        by blast
      then show "length (totals (events s2)) = 1" by simp
    qed
    from A B C D E F G H I J K L have main:
      "(events s = []
               \<or> (\<exists>rest. events s = totalEvent (length fs) # rest \<and> totals rest = []
                     \<and> list_all statusEvent rest))
            \<and> length (totals (events s)) \<le> 1
            \<and> (\<forall>e \<in> set (totals (events s)). Total e = int (length fs))
            \<and> (\<forall>i j. i < length (events s) \<and> j < length (events s)
                  \<and> Total (events s ! i) > 0 \<and> statusEvent (events s ! j) \<longrightarrow> i < j)
            \<and> ((\<exists>e \<in> set (events s). statusEvent e) \<longrightarrow> length (totals (events s)) = 1)
            \<and> (driver s = Returned \<and> \<not> cancelled s \<longrightarrow> length (totals (events s)) = 1)
            \<and> (first s \<longleftrightarrow> events s = [])
            \<and> (\<not> first s \<longrightarrow> length (totals (events s)) = 1)
            \<and> (driver s = AtFirst \<longrightarrow>
                  (\<exists>s'. act opts DriverStep s = Some s' \<and> \<not> first s' \<and> driver s' = AtPush
                     \<and> length (totals (events s')) = 1))
            \<and> (driver s = AtPush \<longrightarrow> length (totals (events s)) = 1)
            \<and> (c \<longrightarrow> events s = [])
            \<and> (\<forall>more s2. run opts more s = Some s2 \<and> events s \<noteq> [] \<longrightarrow>
                  length (totals (events s2)) = 1)"
      by (intro conjI)
    show ?thesis unfolding Inr sum.case
    proof (rule conjI)
      show "fs = [] \<longrightarrow> events s = []" using False by simp
    qed (rule impI, rule main)
  qed
qed

text \<open>
  A complete schedule for a batch of one file that the library holds already: the driver
  passes its check, sends the total and pushes the path; the worker takes it, sends
  hashing, checking and skipped, and exits; the driver returns.
\<close>

definition oneFileSchedule :: "action list" where
  "oneFileSchedule =
     [DriverStep, DriverStep, DriverStep, WorkerStep 0 knownFile, DriverStep,
      WorkerStep 0 knownFile, WorkerStep 0 knownFile, WorkerStep 0 knownFile,
      WorkerStep 0 knownFile, WorkerStep 0 knownFile, WorkerStep 0 knownFile, DriverStep]"

text \<open>
  A schedule in which the context is cancelled between the driver's check and its send:
  the total is sent all the same, the worker drops the path, the driver returns.
\<close>

definition lateCancelSchedule :: "action list" where
  "lateCancelSchedule =
     [DriverStep, Cancel, DriverStep, DriverStep, DriverStep, WorkerStep 0 knownFile,
      WorkerStep 0 knownFile, DriverStep]"

text \<open>A schedule for a context cancelled from the start: close, exit, return.\<close>

definition cancelledSchedule :: "action list" where
  "cancelledSchedule = [DriverStep, WorkerStep 0 knownFile, DriverStep]"

lemma uploadFile_known:
  "uploadFile (defaultOptions 0) knownFile ''a.jpg'' 0 =
     [send ''a.jpg'' 0 StatusHashing '''' '''' None,
      send ''a.jpg'' 0 StatusChecking '''' (SHA1ToDedupeKey zeroDigest) None,
      send ''a.jpg'' 0 StatusSkipped ''AF1QipXYZ'' (SHA1ToDedupeKey zeroDigest) None]"
  by (simp add: uploadFile_def knownFile_def defaultOptions_def Let_def)

lemma oneFile_run:
  "\<exists>s. run (defaultOptions 0) oneFileSchedule
          (Upload (Inr [''a.jpg'']) (defaultOptions 0) False) = Some s
       \<and> driver s = Returned \<and> \<not> cancelled s \<and> eventsClosed s
       \<and> events s = totalEvent 1 # uploadFile (defaultOptions 0) knownFile ''a.jpg'' 0"
  by (simp add: oneFileSchedule_def Upload_def Let_def act_def driverStep_def workerStep_def
      uploadFile_known)

lemma lateCancel_prefix:
  "\<exists>s. run (defaultOptions 0) [DriverStep, Cancel]
          (Upload (Inr [''a.jpg'']) (defaultOptions 0) False) = Some s
       \<and> driver s = AtFirst \<and> cancelled s \<and> events s = []"
  by (simp add: Upload_def Let_def act_def driverStep_def)

lemma lateCancel_run:
  "\<exists>s. run (defaultOptions 0) lateCancelSchedule
          (Upload (Inr [''a.jpg'']) (defaultOptions 0) False) = Some s
       \<and> driver s = Returned \<and> cancelled s \<and> eventsClosed s \<and> events s = [totalEvent 1]"
  by (simp add: lateCancelSchedule_def Upload_def Let_def act_def driverStep_def workerStep_def)

lemma cancelled_run:
  "\<exists>s. run (defaultOptions 0) cancelledSchedule
          (Upload (Inr [''a.jpg'']) (defaultOptions 0) True) = Some s
       \<and> driver s = Returned \<and> eventsClosed s"
  by (simp add: cancelledSchedule_def Upload_def Let_def act_def driverStep_def workerStep_def)

theorem total_event_first_witness:
  "(\<exists>s. run (defaultOptions 0) oneFileSchedule
          (Upload (Inr [''a.jpg'']) (defaultOptions 0) False) = Some s
       \<and> driver s = Returned \<and> \<not> cancelled s
       \<and> map Status (events s) = [NoStatus, StatusHashing, StatusChecking, StatusSkipped]
       \<and> map Total (events s) = [1, 0, 0, 0]
       \<and> length (totals (events s)) = 1)
   \<and> (\<exists>s s'. run (defaultOptions 0) [DriverStep, Cancel]
          (Upload (Inr [''a.jpg'']) (defaultOptions 0) False) = Some s
       \<and> driver s = AtFirst \<and> cancelled s \<and> events s = []
       \<and> act (defaultOptions 0) DriverStep s = Some s'
       \<and> length (totals (events s')) = 1)
   \<and> (\<exists>s. run (defaultOptions 0) lateCancelSchedule
          (Upload (Inr [''a.jpg'']) (defaultOptions 0) False) = Some s
       \<and> driver s = Returned \<and> cancelled s \<and> events s = [totalEvent 1])
   \<and> (\<exists>s. run (defaultOptions 0) cancelledSchedule
          (Upload (Inr [''a.jpg'']) (defaultOptions 0) True) = Some s
       \<and> driver s = Returned \<and> events s = [])"
proof -
  have ne: "[''a.jpg''] \<noteq> []" by simp
  have 1: "\<exists>s. run (defaultOptions 0) oneFileSchedule
          (Upload (Inr [''a.jpg'']) (defaultOptions 0) False) = Some s
       \<and> driver s = Returned \<and> \<not> cancelled s
       \<and> map Status (events s) = [NoStatus, StatusHashing, StatusChecking, StatusSkipped]
       \<and> map Total (events s) = [1, 0, 0, 0]
       \<and> length (totals (events s)) = 1"
  proof -
    from oneFile_run obtain s where s:
      "run (defaultOptions 0) oneFileSchedule
         (Upload (Inr [''a.jpg'']) (defaultOptions 0) False) = Some s"
      "driver s = Returned" "\<not> cancelled s"
      "events s = totalEvent 1 # uploadFile (defaultOptions 0) knownFile ''a.jpg'' 0"
      by blast
    from total_event_first [OF s(1)]
    have "driver s = Returned \<and> \<not> cancelled s \<longrightarrow> length (totals (events s)) = 1"
      unfolding sum.case using ne by blast
    with s(2,3) have one: "length (totals (events s)) = 1" by blast
    from s(4) have st:
      "map Status (events s) = [NoStatus, StatusHashing, StatusChecking, StatusSkipped]"
      and tot: "map Total (events s) = [1, 0, 0, 0]"
      by (simp_all add: uploadFile_known totalEvent_def send_def)
    show ?thesis by (intro exI [of _ s] conjI s(1) s(2) s(3) st tot one)
  qed
  have 2: "\<exists>s s'. run (defaultOptions 0) [DriverStep, Cancel]
          (Upload (Inr [''a.jpg'']) (defaultOptions 0) False) = Some s
       \<and> driver s = AtFirst \<and> cancelled s \<and> events s = []
       \<and> act (defaultOptions 0) DriverStep s = Some s'
       \<and> length (totals (events s')) = 1"
  proof -
    from lateCancel_prefix obtain s where s:
      "run (defaultOptions 0) [DriverStep, Cancel]
         (Upload (Inr [''a.jpg'']) (defaultOptions 0) False) = Some s"
      "driver s = AtFirst" "cancelled s" "events s = []"
      by blast
    from total_event_first [OF s(1)]
    have "driver s = AtFirst \<longrightarrow>
            (\<exists>s'. act (defaultOptions 0) DriverStep s = Some s' \<and> \<not> first s'
               \<and> driver s' = AtPush \<and> length (totals (events s')) = 1)"
      unfolding sum.case using ne by blast
    with s(2) obtain s' where s': "act (defaultOptions 0) DriverStep s = Some s'"
      "length (totals (events s')) = 1" by blast
    show ?thesis by (intro exI [of _ s] exI [of _ s'] conjI s s')
  qed
  have 3: "\<exists>s. run (defaultOptions 0) lateCancelSchedule
          (Upload (Inr [''a.jpg'']) (defaultOptions 0) False) = Some s
       \<and> driver s = Returned \<and> cancelled s \<and> events s = [totalEvent 1]"
    using lateCancel_run by blast
  have 4: "\<exists>s. run (defaultOptions 0) cancelledSchedule
          (Upload (Inr [''a.jpg'']) (defaultOptions 0) True) = Some s
       \<and> driver s = Returned \<and> events s = []"
  proof -
    from cancelled_run obtain s where s:
      "run (defaultOptions 0) cancelledSchedule
         (Upload (Inr [''a.jpg'']) (defaultOptions 0) True) = Some s"
      "driver s = Returned" by blast
    from total_event_first [OF s(1)] have "True \<longrightarrow> events s = []"
      unfolding sum.case using ne by blast
    then have e: "events s = []" by simp
    show ?thesis by (intro exI [of _ s] conjI s e)
  qed
  from 1 2 3 4 show ?thesis by (intro conjI)
qed

section \<open>Library parser\<close>

subsection \<open>Wire primitives\<close>

text \<open>
  The functions of \<^verbatim>\<open>google.golang.org/protobuf/encoding/protowire\<close> that the decoder
  calls. Each returns its value with the number of bytes consumed, or a negative number
  for an error; here an error is \<open>None\<close>.

  \<^verbatim>\<open>ConsumeVarint\<close> reads at most ten bytes: seven bits from each byte, lowest group first,
  until a byte below \<open>0x80\<close>; the tenth byte may only be 0 or 1.
\<close>

fun varintFrom :: "nat \<Rightarrow> byte list \<Rightarrow> (64 word \<times> nat) option" where
  "varintFrom i [] = None"
| "varintFrom i (b # bs) =
     (if i = 9 then (if b < 2 then Some (push_bit 63 (ucast b), 10) else None)
      else if b < 0x80 then Some (push_bit (7 * i) (ucast b), Suc i)
      else (case varintFrom (Suc i) bs of
              None \<Rightarrow> None
            | Some (v, n) \<Rightarrow> Some (push_bit (7 * i) (ucast (b - 0x80)) + v, n)))"

definition ConsumeVarint :: "byte list \<Rightarrow> (64 word \<times> nat) option" where
  "ConsumeVarint b = varintFrom 0 b"

text \<open>
  \<^verbatim>\<open>ConsumeTag\<close>: a varint whose low three bits are the wire type and whose other bits are
  the field number; a field number above \<open>2^31 - 1\<close> or below 1 is an error.
\<close>

definition ConsumeTag :: "byte list \<Rightarrow> (int \<times> nat \<times> nat) option" where
  "ConsumeTag b =
     (case ConsumeVarint b of
        None \<Rightarrow> None
      | Some (v, n) \<Rightarrow>
          if drop_bit 3 v > 0x7FFFFFFF then None
          else if drop_bit 3 v < 1 then None
          else Some (uint (drop_bit 3 v), unat (v AND 7), n))"

text \<open>\<^verbatim>\<open>ConsumeFixed32\<close> and \<^verbatim>\<open>ConsumeFixed64\<close>: four or eight bytes, lowest byte first.\<close>

definition ConsumeFixed32 :: "byte list \<Rightarrow> (32 word \<times> nat) option" where
  "ConsumeFixed32 b =
     (if length b < 4 then None
      else Some (ucast (b ! 0) OR push_bit 8 (ucast (b ! 1)) OR push_bit 16 (ucast (b ! 2))
                 OR push_bit 24 (ucast (b ! 3)), 4))"

definition ConsumeFixed64 :: "byte list \<Rightarrow> (64 word \<times> nat) option" where
  "ConsumeFixed64 b =
     (if length b < 8 then None
      else Some (ucast (b ! 0) OR push_bit 8 (ucast (b ! 1)) OR push_bit 16 (ucast (b ! 2))
                 OR push_bit 24 (ucast (b ! 3)) OR push_bit 32 (ucast (b ! 4))
                 OR push_bit 40 (ucast (b ! 5)) OR push_bit 48 (ucast (b ! 6))
                 OR push_bit 56 (ucast (b ! 7)), 8))"

text \<open>\<^verbatim>\<open>ConsumeBytes\<close>: a varint length, then that many bytes.\<close>

definition ConsumeBytes :: "byte list \<Rightarrow> (byte list \<times> nat) option" where
  "ConsumeBytes b =
     (case ConsumeVarint b of
        None \<Rightarrow> None
      | Some (m, n) \<Rightarrow>
          if unat m > length (drop n b) then None
          else Some (take (unat m) (drop n b), n + unat m))"

lemma varintFrom_bounds:
  "varintFrom i b = Some (v, n) \<Longrightarrow> i < n \<and> n \<le> i + length b"
proof (induction i b arbitrary: v n rule: varintFrom.induct)
  case (1 i)
  then show ?case by simp
next
  case (2 i b bs)
  show ?case
  proof (cases "i = 9")
    case True
    with "2.prems" show ?thesis by (auto split: if_splits)
  next
    case False
    show ?thesis
    proof (cases "b < 0x80")
      case True
      with False "2.prems" show ?thesis by auto
    next
      case nb: False
      with False "2.prems" obtain v' where "varintFrom (Suc i) bs = Some (v', n)"
        by (auto split: option.splits)
      with "2.IH" [OF False nb] have "Suc i < n \<and> n \<le> Suc i + length bs" by blast
      then show ?thesis by simp
    qed
  qed
qed

lemma ConsumeVarint_bounds: "ConsumeVarint b = Some (v, n) \<Longrightarrow> 0 < n \<and> n \<le> length b"
  using varintFrom_bounds [of 0 b v n] by (simp add: ConsumeVarint_def)

lemma ConsumeTag_bounds: "ConsumeTag b = Some (num, wt, n) \<Longrightarrow> 0 < n \<and> n \<le> length b"
  by (auto simp: ConsumeTag_def split: option.splits if_splits dest: ConsumeVarint_bounds)



lemma ConsumeBytes_bounds:
  "ConsumeBytes b = Some (v, n) \<Longrightarrow> 0 < n \<and> n \<le> length b \<and> length v \<le> length b - 1"
proof -
  assume a: "ConsumeBytes b = Some (v, n)"
  then obtain m k where mk: "ConsumeVarint b = Some (m, k)"
    by (auto simp: ConsumeBytes_def split: option.splits)
  then have k: "0 < k \<and> k \<le> length b" by (rule ConsumeVarint_bounds)
  from a mk have "unat m \<le> length b - k" "v = take (unat m) (drop k b)" "n = k + unat m"
    by (auto simp: ConsumeBytes_def split: if_splits)
  with k show ?thesis by auto
qed

subsection \<open>The schemaless decoder\<close>

text \<open>
  The values \<^verbatim>\<open>decodeProtobufToJSON\<close> builds, as Go's \<^verbatim>\<open>any\<close> holds them: \<^verbatim>\<open>nil\<close>, a
  \<^verbatim>\<open>uint64\<close> (varint and fixed64), a \<^verbatim>\<open>uint32\<close> (fixed32), a string, a
  \<^verbatim>\<open>map[string]any\<close> and a \<^verbatim>\<open>[]any\<close>. A map is an association list with one entry for
  each key.
\<close>

datatype jv =
    JNil
  | JUint64 "64 word"
  | JUint32 "32 word"
  | JString string
  | JMap "(string \<times> jv) list"
  | JList "jv list"

datatype decode_error =
    TagError             \<comment> \<open>"failed to consume tag"\<close>
  | VarintError          \<comment> \<open>"failed to consume varint"\<close>
  | Fixed64Error         \<comment> \<open>"failed to consume fixed64"\<close>
  | BytesError           \<comment> \<open>"failed to consume bytes"\<close>
  | Fixed32Error         \<comment> \<open>"failed to consume fixed32"\<close>
  | GroupsNotSupported   \<comment> \<open>"groups not supported"\<close>
  | UnknownWireType nat  \<comment> \<open>"unknown wire type"\<close>

text \<open>
  A Go function returns a value, returns an error, or panics. The only operations of the
  parser that can panic are the slice expressions \<^verbatim>\<open>data[n:]\<close>, which do when \<open>n\<close> exceeds
  the length.
\<close>

datatype ('e, 'a) res = Ok 'a | Err 'e | Panic

definition sliceFrom :: "'a list \<Rightarrow> nat \<Rightarrow> (decode_error, 'a list) res" where
  "sliceFrom xs n = (if n \<le> length xs then Ok (drop n xs) else Panic)"

text \<open>\<^verbatim>\<open>fmt.Sprintf("%d", fieldNum)\<close>.\<close>

function decimal :: "int \<Rightarrow> string" where
  "decimal n =
     (if n < 0 then CHR ''-'' # decimal (- n)
      else if n < 10 then [''0123456789'' ! nat n]
      else decimal (n div 10) @ [''0123456789'' ! nat (n mod 10)])"
  by pat_completeness auto
termination
  by (relation "measure (\<lambda>n. if n < 0 then nat (- n) + 1 else nat n)") auto

text \<open>
  \<^verbatim>\<open>decodeRune\<close>: the rune and its size. Continuation bytes are not checked; a lone
  continuation byte or a sequence cut short gives \<open>0xFFFD\<close> with size 1.
\<close>

definition decodeRune :: "byte list \<Rightarrow> 32 word \<times> nat" where
  "decodeRune data =
     (case data of
        [] \<Rightarrow> (0xFFFD, 0)
      | b # rest \<Rightarrow>
          if b < 0x80 then (ucast b, 1)
          else if b < 0xC0 then (0xFFFD, 1)
          else if b < 0xE0 then
            (if length data < 2 then (0xFFFD, 1)
             else (push_bit 6 (ucast (b AND 0x1F)) OR ucast ((data ! 1) AND 0x3F), 2))
          else if b < 0xF0 then
            (if length data < 3 then (0xFFFD, 1)
             else (push_bit 12 (ucast (b AND 0x0F)) OR push_bit 6 (ucast ((data ! 1) AND 0x3F))
                   OR ucast ((data ! 2) AND 0x3F), 3))
          else
            (if length data < 4 then (0xFFFD, 1)
             else (push_bit 18 (ucast (b AND 0x07)) OR push_bit 12 (ucast ((data ! 1) AND 0x3F))
                   OR push_bit 6 (ucast ((data ! 2) AND 0x3F))
                   OR ucast ((data ! 3) AND 0x3F), 4)))"

lemma decodeRune_size: "data \<noteq> [] \<Longrightarrow> 0 < snd (decodeRune data)"
  by (auto simp: decodeRune_def split: list.splits)

lemma decodeRune_rest: "data \<noteq> [] \<Longrightarrow> length data - snd (decodeRune data) < length data"
  using decodeRune_size [of data] by (cases data) auto

text \<open>
  \<^verbatim>\<open>isValidUTF8\<close>: the loop over the runes of the data, as a recursion over the data that
  is left.
\<close>

function isValidUTF8 :: "byte list \<Rightarrow> bool" where
  "isValidUTF8 data =
     (if data = [] then True
      else if fst (decodeRune data) = 0xFFFD \<and> snd (decodeRune data) = 1 then False
      else if fst (decodeRune data) < 0x20 \<and> fst (decodeRune data) \<noteq> 0x09
              \<and> fst (decodeRune data) \<noteq> 0x0A \<and> fst (decodeRune data) \<noteq> 0x0D then False
      else isValidUTF8 (drop (snd (decodeRune data)) data))"
  by pat_completeness auto
termination
  by (relation "measure length") (auto simp: decodeRune_rest)

text \<open>\<^verbatim>\<open>base64.StdEncoding.EncodeToString\<close>: the standard alphabet, padded with equals signs.\<close>

definition encodeStd :: string where
  "encodeStd = alnum @ ''+/''"

definition StdEncoding :: "byte list \<Rightarrow> string" where
  "StdEncoding bs =
     map (\<lambda>i. encodeStd ! i) (sextets bs) @ replicate ((3 - length bs mod 3) mod 3) (CHR ''='')"

text \<open>Bytes become characters one to one (\<^verbatim>\<open>string(v)\<close>).\<close>

definition stringOf :: "byte list \<Rightarrow> string" where
  "stringOf v = map (\<lambda>b. char_of (unat b)) v"

text \<open>A length-delimited field that is no message: a string when printable, else base64.\<close>

definition bytesValue :: "byte list \<Rightarrow> jv" where
  "bytesValue v = (if isValidUTF8 v then JString (stringOf v) else JString (StdEncoding v))"

text \<open>
  Storing a field: the first value of a key is stored as it is; a second value turns the
  entry into a list of the two; a further value is appended to the list. (A first value
  that is itself a list cannot occur: the decoder produces lists only here.)
\<close>

fun addField :: "(string \<times> jv) list \<Rightarrow> string \<Rightarrow> jv \<Rightarrow> (string \<times> jv) list" where
  "addField [] key v = [(key, v)]"
| "addField ((k, existing) # m) key v =
     (if k = key then
        (case existing of
           JList vs \<Rightarrow> (k, JList (vs @ [v])) # m
         | _ \<Rightarrow> (k, JList [existing, v]) # m)
      else (k, existing) # addField m key v)"

text \<open>
  \<^verbatim>\<open>decodeProtobufToJSON\<close>. \<open>decodeLoop\<close> is its \<^verbatim>\<open>for\<close> loop with the map built so far;
  the call for a nested message is the function itself on the bytes of the field. The
  depth of the nesting is not bounded: the stack is taken to be as large as the input
  needs.
\<close>

function decodeLoop :: "byte list \<Rightarrow> (string \<times> jv) list \<Rightarrow> (decode_error, jv) res" where
  "decodeLoop data result =
     (if data = [] then (if result = [] then Ok JNil else Ok (JMap result))
      else
        (case ConsumeTag data of
           None \<Rightarrow> Err TagError
         | Some (fieldNum, wireType, n) \<Rightarrow>
             (case sliceFrom data n of
                Panic \<Rightarrow> Panic
              | Err e \<Rightarrow> Err e
              | Ok data1 \<Rightarrow>
                  (case
                     (if wireType = 0 then
                        (case ConsumeVarint data1 of
                           None \<Rightarrow> Err VarintError
                         | Some (v, c) \<Rightarrow> Ok (JUint64 v, c))
                      else if wireType = 1 then
                        (case ConsumeFixed64 data1 of
                           None \<Rightarrow> Err Fixed64Error
                         | Some (v, c) \<Rightarrow> Ok (JUint64 v, c))
                      else if wireType = 2 then
                        (case ConsumeBytes data1 of
                           None \<Rightarrow> Err BytesError
                         | Some (v, c) \<Rightarrow>
                             (case (if v = [] then Ok JNil else decodeLoop v []) of
                                Panic \<Rightarrow> Panic
                              | Err e \<Rightarrow> Ok (bytesValue v, c)
                              | Ok nested \<Rightarrow>
                                  if nested \<noteq> JNil then Ok (nested, c)
                                  else Ok (bytesValue v, c)))
                      else if wireType = 5 then
                        (case ConsumeFixed32 data1 of
                           None \<Rightarrow> Err Fixed32Error
                         | Some (v, c) \<Rightarrow> Ok (JUint32 v, c))
                      else if wireType = 3 \<or> wireType = 4 then Err GroupsNotSupported
                      else Err (UnknownWireType wireType))
                   of
                     Panic \<Rightarrow> Panic
                   | Err e \<Rightarrow> Err e
                   | Ok (val, consumed) \<Rightarrow>
                       (case sliceFrom data1 consumed of
                          Panic \<Rightarrow> Panic
                        | Err e \<Rightarrow> Err e
                        | Ok data2 \<Rightarrow>
                            decodeLoop data2 (addField result (decimal fieldNum) val))))))"
  by pat_completeness auto

lemma sliceFrom_Ok: "sliceFrom xs n = Ok ys \<Longrightarrow> ys = drop n xs \<and> n \<le> length xs"
  by (auto simp: sliceFrom_def split: if_splits)

termination decodeLoop
proof (relation "measure (\<lambda>(data, result). length data)", goal_cases)
  case 1
  then show ?case by simp
next
  case (2 data result x fieldNum y wireType n data1 xa v c)
  then show ?case
    by (auto dest!: ConsumeTag_bounds sliceFrom_Ok ConsumeBytes_bounds)
next
  case (3 data result x fieldNum y wireType n data1 xa val consumed data2)
  from "3"(2,3,4) have "0 < n" by (auto dest: ConsumeTag_bounds)
  moreover from "3"(5) have "data1 = drop n data" "n \<le> length data"
    by (auto dest: sliceFrom_Ok)
  moreover from "3"(8) have "data2 = drop consumed data1" by (auto dest: sliceFrom_Ok)
  ultimately show ?case by simp
qed

definition decodeProtobufToJSON :: "byte list \<Rightarrow> (decode_error, jv) res" where
  "decodeProtobufToJSON data = (if length data = 0 then Ok JNil else decodeLoop data [])"

subsection \<open>Projection onto the library response\<close>

record MediaItemInfo =
  MediaKey :: string
  Filename :: string
  Caption :: string
  CreationTimestamp :: int
  FileSize :: int
  Width :: int
  Height :: int
  IsVideo :: bool
  IsInTrash :: bool
  TrashedAt :: int
  AlbumMediaKey :: string
  DownloadURL :: string
  ThumbnailURL :: string
  DedupKey :: string

record AlbumInfo =
  AlbumKey :: string
  Name :: string
  ItemCount :: int
  CoverKey :: string

record LibraryResponse =
  MediaItems :: "MediaItemInfo list"
  Albums :: "AlbumInfo list"
  StateToken :: string
  PageToken :: string

text \<open>The zero values of the three structs.\<close>

definition emptyMediaItem :: MediaItemInfo where
  "emptyMediaItem =
     \<lparr>MediaKey = '''', Filename = '''', Caption = '''', CreationTimestamp = 0, FileSize = 0,
      Width = 0, Height = 0, IsVideo = False, IsInTrash = False, TrashedAt = 0,
      AlbumMediaKey = '''', DownloadURL = '''', ThumbnailURL = '''', DedupKey = ''''\<rparr>"

definition emptyAlbum :: AlbumInfo where
  "emptyAlbum = \<lparr>AlbumKey = '''', Name = '''', ItemCount = 0, CoverKey = ''''\<rparr>"

definition emptyResponse :: LibraryResponse where
  "emptyResponse = \<lparr>MediaItems = [], Albums = [], StateToken = '''', PageToken = ''''\<rparr>"

text \<open>
  \<^verbatim>\<open>getInt64\<close> and \<^verbatim>\<open>getInt\<close>: a \<^verbatim>\<open>uint64\<close> is reinterpreted as signed, a \<^verbatim>\<open>uint32\<close>
  widened; any value that is no number gives 0. The decoder produces no other numeric
  type, so the cases of the source for \<^verbatim>\<open>int64\<close>, \<^verbatim>\<open>float64\<close>, \<^verbatim>\<open>int32\<close> and \<^verbatim>\<open>int\<close>
  have no value to apply to. \<^verbatim>\<open>int\<close> has 64 bits.
\<close>

definition getInt64 :: "jv \<Rightarrow> int" where
  "getInt64 v = (case v of JUint64 n \<Rightarrow> sint n | JUint32 n \<Rightarrow> uint n | _ \<Rightarrow> 0)"

definition getInt :: "jv \<Rightarrow> int" where
  "getInt v = getInt64 v"

text \<open>
  Reading a map and the three guarded forms of the source:
  \<^verbatim>\<open>if s, ok := m[k].(string); ok\<close>, \<^verbatim>\<open>if x, ok := m[k].(map[string]any); ok\<close> and
  \<^verbatim>\<open>if v, exists := m[k]; exists\<close>. Each runs its body on the struct built so far, or
  leaves it as it is.
\<close>

definition getKey :: "(string \<times> jv) list \<Rightarrow> string \<Rightarrow> jv option" where
  "getKey m k = map_of m k"

definition ifString :: "jv option \<Rightarrow> (string \<Rightarrow> 'r \<Rightarrow> 'r) \<Rightarrow> 'r \<Rightarrow> 'r" where
  "ifString x body r = (case x of Some (JString s) \<Rightarrow> body s r | _ \<Rightarrow> r)"

definition ifMap :: "jv option \<Rightarrow> ((string \<times> jv) list \<Rightarrow> 'r \<Rightarrow> 'r) \<Rightarrow> 'r \<Rightarrow> 'r" where
  "ifMap x body r = (case x of Some (JMap m) \<Rightarrow> body m r | _ \<Rightarrow> r)"

definition ifExists :: "jv option \<Rightarrow> (jv \<Rightarrow> 'r \<Rightarrow> 'r) \<Rightarrow> 'r \<Rightarrow> 'r" where
  "ifExists x body r = (case x of Some v \<Rightarrow> body v r | None \<Rightarrow> r)"

text \<open>Statements in sequence: each changes the struct the previous one left.\<close>

definition seq :: "('r \<Rightarrow> 'r) list \<Rightarrow> 'r \<Rightarrow> 'r" where
  "seq stmts r = foldl (\<lambda>acc stmt. stmt acc) r stmts"

definition parseMediaItem :: "(string \<times> jv) list \<Rightarrow> MediaItemInfo" where
  "parseMediaItem item =
     seq
       [ifString (getKey item ''1'') (\<lambda>mk mi. mi\<lparr>MediaKey := mk\<rparr>),
        ifMap (getKey item ''2'') (\<lambda>meta. seq
          [ifString (getKey meta ''4'') (\<lambda>fn mi. mi\<lparr>Filename := fn\<rparr>),
           ifString (getKey meta ''3'') (\<lambda>cap mi. mi\<lparr>Caption := cap\<rparr>),
           ifExists (getKey meta ''7'') (\<lambda>ts mi. mi\<lparr>CreationTimestamp := getInt64 ts\<rparr>),
           ifExists (getKey meta ''10'') (\<lambda>sz mi. mi\<lparr>FileSize := getInt64 sz\<rparr>),
           ifMap (getKey meta ''13'') (\<lambda>dk.
             ifString (getKey dk ''1'') (\<lambda>key mi. mi\<lparr>DedupKey := key\<rparr>)),
           ifMap (getKey meta ''1'') (\<lambda>albumInfo.
             ifString (getKey albumInfo ''1'') (\<lambda>amk mi. mi\<lparr>AlbumMediaKey := amk\<rparr>)),
           ifMap (getKey meta ''16'') (\<lambda>trashInfo. seq
             [ifExists (getKey trashInfo ''1'') (\<lambda>state mi. mi\<lparr>IsInTrash := (getInt state = 2)\<rparr>),
              ifExists (getKey trashInfo ''3'')
                (\<lambda>trashedAt mi. mi\<lparr>TrashedAt := getInt64 trashedAt\<rparr>)])]),
        ifMap (getKey item ''5'') (\<lambda>dlInfo. seq
          [ifExists (getKey dlInfo ''1'') (\<lambda>mt mi. mi\<lparr>IsVideo := (getInt mt = 2)\<rparr>),
           ifMap (getKey dlInfo ''2'') (\<lambda>imgInfo. seq
             [ifString (getKey imgInfo ''6'') (\<lambda>url mi. mi\<lparr>DownloadURL := url\<rparr>),
              ifMap (getKey imgInfo ''1'') (\<lambda>urlInfo. seq
                [ifString (getKey urlInfo ''1'') (\<lambda>url mi. mi\<lparr>ThumbnailURL := url\<rparr>),
                 ifExists (getKey urlInfo ''2'') (\<lambda>w mi. mi\<lparr>Width := getInt w\<rparr>),
                 ifExists (getKey urlInfo ''3'') (\<lambda>h mi. mi\<lparr>Height := getInt h\<rparr>)])]),
           ifMap (getKey dlInfo ''3'') (\<lambda>vidInfo. seq
             [ifString (getKey vidInfo ''5'') (\<lambda>url mi. mi\<lparr>DownloadURL := url\<rparr>),
              ifMap (getKey vidInfo ''2'') (\<lambda>thumbInfo. seq
                [ifString (getKey thumbInfo ''1'') (\<lambda>url mi. mi\<lparr>ThumbnailURL := url\<rparr>),
                 ifExists (getKey thumbInfo ''2'') (\<lambda>w mi. mi\<lparr>Width := getInt w\<rparr>),
                 ifExists (getKey thumbInfo ''3'') (\<lambda>h mi. mi\<lparr>Height := getInt h\<rparr>)])])])]
       emptyMediaItem"

definition parseAlbum :: "(string \<times> jv) list \<Rightarrow> AlbumInfo" where
  "parseAlbum item =
     seq
       [ifString (getKey item ''1'') (\<lambda>ak ai. ai\<lparr>AlbumKey := ak\<rparr>),
        ifMap (getKey item ''2'') (\<lambda>meta. seq
          [ifString (getKey meta ''5'') (\<lambda>name ai. ai\<lparr>Name := name\<rparr>),
           ifExists (getKey meta ''7'') (\<lambda>count ai. ai\<lparr>ItemCount := getInt count\<rparr>),
           ifMap (getKey meta ''17'') (\<lambda>cover.
             ifString (getKey cover ''1'') (\<lambda>ck ai. ai\<lparr>CoverKey := ck\<rparr>))])]
       emptyAlbum"

text \<open>
  The two loops of \<^verbatim>\<open>parseLibraryResponse\<close>: an element that is a map is parsed and
  appended, any other element is passed over.
\<close>

fun mapsOf :: "jv list \<Rightarrow> (string \<times> jv) list list" where
  "mapsOf [] = []"
| "mapsOf (JMap m # xs) = m # mapsOf xs"
| "mapsOf (x # xs) = mapsOf xs"

definition ifList :: "jv option \<Rightarrow> (jv list \<Rightarrow> 'r \<Rightarrow> 'r) \<Rightarrow> 'r \<Rightarrow> 'r" where
  "ifList x body r = (case x of Some (JList xs) \<Rightarrow> body xs r | _ \<Rightarrow> r)"

text \<open>
  \<^verbatim>\<open>parseLibraryResponse\<close>; \<open>responseOf\<close> is its part after the two guards, on the message
  at field 1. An error of the decoder is returned wrapped.
\<close>

definition responseOf :: "(string \<times> jv) list \<Rightarrow> LibraryResponse" where
  "responseOf field1 =
     seq
       [ifString (getKey field1 ''6'') (\<lambda>st resp. resp\<lparr>StateToken := st\<rparr>),
        ifString (getKey field1 ''5'') (\<lambda>pt resp. resp\<lparr>PageToken := pt\<rparr>),
        ifList (getKey field1 ''2'') (\<lambda>mediaItems resp.
          resp\<lparr>MediaItems := MediaItems resp @ map parseMediaItem (mapsOf mediaItems)\<rparr>),
        ifList (getKey field1 ''3'') (\<lambda>albums resp.
          resp\<lparr>Albums := Albums resp @ map parseAlbum (mapsOf albums)\<rparr>)]
       emptyResponse"

datatype parse_error =
    FailedToDecodeProtobuf decode_error  \<comment> \<open>"failed to decode protobuf: %w"\<close>

definition parseLibraryResponse :: "byte list \<Rightarrow> (parse_error, LibraryResponse) res" where
  "parseLibraryResponse data =
     (case decodeProtobufToJSON data of
        Panic \<Rightarrow> Panic
      | Err e \<Rightarrow> Err (FailedToDecodeProtobuf e)
      | Ok decoded \<Rightarrow>
          (case decoded of
             JMap root \<Rightarrow>
               (case getKey root ''1'' of
                  Some (JMap field1) \<Rightarrow> Ok (responseOf field1)
                | _ \<Rightarrow> Ok emptyResponse)
           | _ \<Rightarrow> Ok emptyResponse))"

text \<open>The value at a path of keys below a value, when every step passes through a map.\<close>

fun atPath :: "jv \<Rightarrow> string list \<Rightarrow> jv option" where
  "atPath v [] = Some v"
| "atPath (JMap m) (k # ks) = (case getKey m k of None \<Rightarrow> None | Some v \<Rightarrow> atPath v ks)"
| "atPath v (k # ks) = None"

subsection \<open>The parser never panics\<close>

declare decodeLoop.simps [simp del]





subsection \<open>Missing fields\<close>








































lemma parse_of_tree:
  assumes "decodeProtobufToJSON data = Ok t"
  shows "parseLibraryResponse data =
           (case atPath t [''1''] of
              Some (JMap field1) \<Rightarrow> Ok (responseOf field1)
            | _ \<Rightarrow> Ok emptyResponse)"
  using assms
  by (cases t) (simp_all add: parseLibraryResponse_def split: option.splits jv.splits)











text \<open>
  A field that occurs once is stored as its value, and only a second occurrence makes a
  list of it. The loops over media items and albums run over lists only, so a message with
  a single media item gives a response with no media item.
\<close>

definition oneItem :: "byte list" where
  "oneItem = [0x0A, 0x05, 0x12, 0x03, 0x0A, 0x01, 0x41]"

lemma decode_oneItem:
  "decodeProtobufToJSON oneItem =
     Ok (JMap [(''1'', JMap [(''2'', JMap [(''1'', JString ''A'')])])])"
  by code_simp

lemma single_item_is_passed_over: "parseLibraryResponse oneItem = Ok emptyResponse"
  by (simp add: parse_of_tree [OF decode_oneItem] getKey_def responseOf_def seq_def
      ifString_def ifList_def)

end
